theory Spec2Isabelle
  imports Main "HOL-Library.AList"
begin

section \<open>Data model\<close>

subsection \<open>Element type discriminators (class \<open>Types\<close> of \<open>core/element.py\<close>)\<close>

definition VARIABLE :: int where "VARIABLE = 0"
definition ABILITY :: int where "ABILITY = 10"
definition SPELL :: int where "SPELL = 20"
definition ACTION :: int where "ACTION = 30"
definition FEAT :: int where "FEAT = 40"
definition ITEM :: int where "ITEM = 45"
definition TRAIT :: int where "TRAIT = 50"
definition RACE :: int where "RACE = 60"
definition FEATURE :: int where "FEATURE = 70"
definition CLASS :: int where "CLASS = 80"
definition BASE :: int where "BASE = 90"

subsection \<open>Exceptions\<close>

text \<open>
  The exceptions the core raises, as values. The code raises Python's builtin exceptions
  where the specification speaks of its own error kinds: \<open>ValueError\<close> is the
  specification's DuplicateIdError, \<open>TypeError\<close> its InvalidRegistrationError and
  \<open>KeyError\<close> its NotFoundError. \<open>CircularDependencyError\<close> carries the variable
  instance it was raised for; an instance is identified by its position in the VARIABLE
  group of the character that owns it.
\<close>

datatype error =
    TypeError
  | ValueError
  | KeyError
  | AttributeError
  | AssertionError
  | ZeroDivisionError
  | CircularDependencyError nat

subsection \<open>Values\<close>

text \<open>
  Formulas of the core compute counts, flags and numbers derived from them: integers
  (unbounded, as Python's) and booleans.
\<close>

datatype val = IntV int | BoolV bool

text \<open>Python's \<open>bool\<close> is a subclass of \<open>int\<close>: in arithmetic \<open>True\<close> is 1.\<close>

fun as_int :: "val \<Rightarrow> int" where
  "as_int (IntV n) = n"
| "as_int (BoolV b) = (if b then 1 else 0)"

text \<open>The truth value \<open>bool(v)\<close> that an \<open>if\<close> expression tests.\<close>

fun truthy :: "val \<Rightarrow> bool" where
  "truthy (IntV n) = (n \<noteq> 0)"
| "truthy (BoolV b) = b"

subsection \<open>Formulas, element references and descriptors\<close>

text \<open>
  A \<open>Formula\<close> wraps a function of the character. Every formula the class builds wraps
  one of six closures; the datatype has one constructor for each, holding what the closure
  captured, and \<open>Formula_call\<close> below runs the closure's body.

  An element reference (\<open>ElementRef\<close>) is a class or a \<open>(type, id)\<close> tuple. A class is
  the base class \<open>Element\<close> itself, which has no \<open>type\<close>, \<open>id\<close> or \<open>name\<close>, or a
  subclass; a subclass of \<open>Variable\<close> has the type \<open>Types.VARIABLE\<close> and a formula.
  The metadata \<open>description\<close>, \<open>granted\<close> and \<open>options\<close> are read by
  \<open>get_choices\<close> only and are left out.
\<close>

datatype formula =
    ConstL val                                            \<comment> \<open>\<open>lambda character: value\<close>\<close>
  | VarL string                                           \<comment> \<open>\<open>lambda character: character.get_variable(name)\<close>\<close>
  | CountL element_ref                                    \<comment> \<open>\<open>lambda character: character.count_elements(element)\<close>\<close>
  | HasL element_ref                                      \<comment> \<open>\<open>lambda character: character.count_elements(element) > 0\<close>\<close>
  | IfL formula formula formula                           \<comment> \<open>\<open>lambda character: (if_true if expr(character) else if_false)(character)\<close>\<close>
  | OperatorL "val \<Rightarrow> val \<Rightarrow> error + val" formula formula  \<comment> \<open>\<open>lambda character: operator(f(character), g(character))\<close>\<close>
and element_ref =
    ClsRef cls
  | TupleRef int string
and cls =
    Element
  | Subclass descriptor
and descriptor =
    ElementCls int string string                          \<comment> \<open>type, id, name\<close>
  | VariableCls string string formula                     \<comment> \<open>id, name, formula\<close>

fun cls_type :: "descriptor \<Rightarrow> int" where
  "cls_type (ElementCls t i n) = t"
| "cls_type (VariableCls i n f) = VARIABLE"

fun cls_id :: "descriptor \<Rightarrow> string" where
  "cls_id (ElementCls t i n) = i"
| "cls_id (VariableCls i n f) = i"

fun cls_name :: "descriptor \<Rightarrow> string" where
  "cls_name (ElementCls t i n) = n"
| "cls_name (VariableCls i n f) = n"

text \<open>\<open>issubclass(cls, Variable)\<close>\<close>

fun is_Variable :: "descriptor \<Rightarrow> bool" where
  "is_Variable (ElementCls t i n) = False"
| "is_Variable (VariableCls i n f) = True"

section \<open>Registry (\<open>core/registry.py\<close>)\<close>

text \<open>
  \<open>Registry.registry\<close> is a dictionary from the type to a dictionary from the id to the
  class. The inner dictionary is iterated (\<open>values()\<close>), so it is an association list in
  insertion order; the outer one is only looked up.
\<close>

type_synonym Registry = "int \<rightharpoonup> (string \<times> descriptor) list"

definition Registry_init :: Registry where
  "Registry_init = Map.empty"

text \<open>
  \<open>register\<close>: the base class is refused; \<open>setdefault\<close> makes the type's dictionary if
  there is none; a class whose id is a key of it is refused; otherwise the class is stored
  under its id. When it raises \<open>ValueError\<close> the type's dictionary was there already, so
  a failed call leaves the registry as it was.
\<close>

fun Registry_register :: "Registry \<Rightarrow> cls \<Rightarrow> error + Registry" where
  "Registry_register self Element = Inl TypeError"
| "Registry_register self (Subclass d) =
     (let registry = (case self (cls_type d) of None \<Rightarrow> [] | Some r \<Rightarrow> r) in
      if map_of registry (cls_id d) \<noteq> None then Inl ValueError
      else Inr (self(cls_type d \<mapsto> AList.update (cls_id d) d registry)))"

text \<open>\<open>get\<close>: \<open>self.registry[type][id]\<close>, a \<open>KeyError\<close> when either key is missing.\<close>

definition Registry_get :: "Registry \<Rightarrow> int \<Rightarrow> string \<Rightarrow> error + descriptor" where
  "Registry_get self t i =
     (case self t of
        None \<Rightarrow> Inl KeyError
      | Some r \<Rightarrow> (case map_of r i of None \<Rightarrow> Inl KeyError | Some d \<Rightarrow> Inr d))"

text \<open>\<open>__getitem__\<close>: \<open>self.registry.get(type, {})\<close>.\<close>

definition Registry_getitem :: "Registry \<Rightarrow> int \<Rightarrow> (string \<times> descriptor) list" where
  "Registry_getitem self t = (case self t of None \<Rightarrow> [] | Some r \<Rightarrow> r)"

section \<open>Character (\<open>core/character.py\<close>) and evaluation\<close>

subsection \<open>Instances and the character\<close>

text \<open>
  An instance of an element class; an instance of a \<open>Variable\<close> subclass also has the
  flag \<open>_lock\<close>. The back reference \<open>character\<close> of an instance is the character
  that holds it.
\<close>

datatype inst =
    ElementObj descriptor
  | VariableObj descriptor bool

fun inst_cls :: "inst \<Rightarrow> descriptor" where
  "inst_cls (ElementObj d) = d"
| "inst_cls (VariableObj d l) = d"

text \<open>\<open>cls(self)\<close>: \<open>Variable.__init__\<close> sets \<open>_lock\<close> to \<open>False\<close>.\<close>

fun instantiate :: "descriptor \<Rightarrow> inst" where
  "instantiate (ElementCls t i n) = ElementObj (ElementCls t i n)"
| "instantiate (VariableCls i n f) = VariableObj (VariableCls i n f) False"

text \<open>
  The character: \<open>elements\<close>, the instances grouped by type, and \<open>_registry\<close>. The
  field holds the state of the registry object the character refers to.
\<close>

record character =
  elements :: "int \<rightharpoonup> inst list"
  registry :: Registry

subsection \<open>Construction\<close>

text \<open>
  The first loop of \<open>__init__\<close>: a tuple is looked up in the registry, then
  \<open>self.elements.setdefault(cls.type, []).append(cls(self))\<close>. The base class has no
  attribute \<open>type\<close>.
\<close>

fun resolve :: "Registry \<Rightarrow> element_ref \<Rightarrow> error + cls" where
  "resolve reg (ClsRef c) = Inr c"
| "resolve reg (TupleRef t i) =
     (case Registry_get reg t i of Inl e \<Rightarrow> Inl e | Inr d \<Rightarrow> Inr (Subclass d))"

fun init_elements ::
  "Registry \<Rightarrow> element_ref list \<Rightarrow> (int \<rightharpoonup> inst list) \<Rightarrow> error + (int \<rightharpoonup> inst list)"
where
  "init_elements reg [] els = Inr els"
| "init_elements reg (r # rs) els =
     (case resolve reg r of
        Inl e \<Rightarrow> Inl e
      | Inr Element \<Rightarrow> Inl AttributeError
      | Inr (Subclass d) \<Rightarrow>
          init_elements reg rs
            (els(cls_type d \<mapsto> (case els (cls_type d) of None \<Rightarrow> [] | Some xs \<Rightarrow> xs) @ [instantiate d])))"

text \<open>
  The second loop: one instance for each class registered under \<open>Types.VARIABLE\<close>, after
  \<open>assert issubclass(cls, Variable) and cls.type == Types.VARIABLE\<close>.
\<close>

fun init_variables :: "descriptor list \<Rightarrow> inst list \<Rightarrow> error + inst list" where
  "init_variables [] vs = Inr vs"
| "init_variables (d # ds) vs =
     (if is_Variable d \<and> cls_type d = VARIABLE then init_variables ds (vs @ [instantiate d])
      else Inl AssertionError)"

definition Character_init :: "element_ref list \<Rightarrow> Registry \<Rightarrow> error + character" where
  "Character_init refs reg =
     (case init_elements reg refs Map.empty of
        Inl e \<Rightarrow> Inl e
      | Inr els \<Rightarrow>
          (case init_variables (map snd (Registry_getitem reg VARIABLE)) [] of
             Inl e \<Rightarrow> Inl e
           | Inr vs \<Rightarrow> Inr \<lparr>elements = els(VARIABLE \<mapsto> vs), registry = reg\<rparr>))"

subsection \<open>Queries\<close>

text \<open>\<open>get_elements_by_type\<close>: \<open>self.elements.get(type, [])\<close>.\<close>

definition get_elements_by_type :: "character \<Rightarrow> int \<Rightarrow> inst list" where
  "get_elements_by_type self t = (case elements self t of None \<Rightarrow> [] | Some xs \<Rightarrow> xs)"

text \<open>
  \<open>count_elements\<close>: a class is taken as it is, a tuple is looked up in
  \<open>self._registry\<close>; then \<open>sum(element.id == x.id for x in
  self.get_elements_by_type(element.type))\<close>.
\<close>

fun count_elements :: "character \<Rightarrow> element_ref \<Rightarrow> error + int" where
  "count_elements self r =
     (case resolve (registry self) r of
        Inl e \<Rightarrow> Inl e
      | Inr Element \<Rightarrow> Inl AttributeError
      | Inr (Subclass element) \<Rightarrow>
          Inr (int (length (filter (\<lambda>x. cls_id element = cls_id (inst_cls x))
                                   (get_elements_by_type self (cls_type element))))))"

text \<open>
  The property \<open>variables\<close>: the loop \<open>variables[var.id] = var\<close> over the VARIABLE
  group, a later instance replacing an earlier one with the same id. The dictionary holds
  references to the instances, here their positions in the group.
\<close>

fun variables_loop :: "inst list \<Rightarrow> nat \<Rightarrow> (string \<rightharpoonup> nat) \<Rightarrow> (string \<rightharpoonup> nat)" where
  "variables_loop [] k m = m"
| "variables_loop (v # vs) k m = variables_loop vs (Suc k) (m(cls_id (inst_cls v) \<mapsto> k))"

definition variables :: "character \<Rightarrow> error + (string \<rightharpoonup> nat)" where
  "variables self =
     (case elements self VARIABLE of
        None \<Rightarrow> Inl KeyError
      | Some vs \<Rightarrow> Inr (variables_loop vs 0 Map.empty))"

text \<open>Reading and writing the instance at a position of the VARIABLE group.\<close>

definition variable_at :: "character \<Rightarrow> nat \<Rightarrow> inst" where
  "variable_at self k = get_elements_by_type self VARIABLE ! k"

definition set_lock :: "character \<Rightarrow> nat \<Rightarrow> bool \<Rightarrow> character" where
  "set_lock self k b =
     self\<lparr>elements := (elements self)(VARIABLE \<mapsto>
       (get_elements_by_type self VARIABLE)[k := VariableObj (inst_cls (variable_at self k)) b])\<rparr>"

subsection \<open>Evaluation\<close>

text \<open>
  Calling a formula, \<open>get_variable\<close> and \<open>Variable.__call__\<close> call each other. An
  exception ends the evaluation, and the character stays as it was when the exception was
  raised. The first argument bounds the depth of nested \<open>Variable.__call__\<close>; the
  result is \<open>None\<close> when the bound is reached.

  \<open>Variable.__call__\<close>: raise \<open>CircularDependencyError(self)\<close> if \<open>_lock\<close> is
  set; set it; call the formula of the class with the character; clear \<open>_lock\<close>; return
  the value. The assignment that clears the flag follows the call of the formula, so it is
  not reached when the formula raises.
\<close>

type_synonym 'a outcome = "((error + 'a) \<times> character) option"

fun Formula_call :: "nat \<Rightarrow> formula \<Rightarrow> character \<Rightarrow> val outcome"
and get_variable :: "nat \<Rightarrow> character \<Rightarrow> string \<Rightarrow> val outcome"
and Variable_call :: "nat \<Rightarrow> nat \<Rightarrow> character \<Rightarrow> val outcome"
where
  "Formula_call n (ConstL v) c = Some (Inr v, c)"
| "Formula_call n (VarL name) c = get_variable n c name"
| "Formula_call n (CountL element) c =
     (case count_elements c element of
        Inl e \<Rightarrow> Some (Inl e, c)
      | Inr k \<Rightarrow> Some (Inr (IntV k), c))"
| "Formula_call n (HasL element) c =
     (case count_elements c element of
        Inl e \<Rightarrow> Some (Inl e, c)
      | Inr k \<Rightarrow> Some (Inr (BoolV (k > 0)), c))"
| "Formula_call n (IfL expr if_true if_false) c =
     (case Formula_call n expr c of
        None \<Rightarrow> None
      | Some (Inl e, c1) \<Rightarrow> Some (Inl e, c1)
      | Some (Inr b, c1) \<Rightarrow>
          (if truthy b then Formula_call n if_true c1 else Formula_call n if_false c1))"
| "Formula_call n (OperatorL operator f g) c =
     (case Formula_call n f c of
        None \<Rightarrow> None
      | Some (Inl e, c1) \<Rightarrow> Some (Inl e, c1)
      | Some (Inr x, c1) \<Rightarrow>
          (case Formula_call n g c1 of
             None \<Rightarrow> None
           | Some (Inl e, c2) \<Rightarrow> Some (Inl e, c2)
           | Some (Inr y, c2) \<Rightarrow>
               (case operator x y of
                  Inl e \<Rightarrow> Some (Inl e, c2)
                | Inr z \<Rightarrow> Some (Inr z, c2))))"
| "get_variable n c name =
     (case variables c of
        Inl e \<Rightarrow> Some (Inl e, c)
      | Inr vars \<Rightarrow>
          (case vars name of
             None \<Rightarrow> Some (Inl KeyError, c)
           | Some k \<Rightarrow> Variable_call n k c))"
| "Variable_call n k c =
     (case variable_at c k of
        ElementObj d \<Rightarrow> Some (Inl TypeError, c)
      | VariableObj d lock \<Rightarrow>
          if lock then Some (Inl (CircularDependencyError k), c)
          else
            (let c1 = set_lock c k True in
             case d of
               ElementCls t i nm \<Rightarrow> Some (Inl AttributeError, c1)
             | VariableCls i nm formula \<Rightarrow>
                 (case n of
                    0 \<Rightarrow> None
                  | Suc m \<Rightarrow>
                      (case Formula_call m formula c1 of
                         None \<Rightarrow> None
                       | Some (Inl e, c2) \<Rightarrow> Some (Inl e, c2)
                       | Some (Inr v, c2) \<Rightarrow> Some (Inr v, set_lock c2 k False)))))"

section \<open>Formula (\<open>core/formula.py\<close>)\<close>

text \<open>
  The class methods that build formulas. Each returns a formula that wraps the closure
  given in the source; \<open>Formula_call\<close> is \<open>Formula.__call__\<close>.
\<close>

definition Formula_const :: "val \<Rightarrow> formula" where
  "Formula_const v = ConstL v"

definition Formula_var :: "string \<Rightarrow> formula" where
  "Formula_var name = VarL name"

definition Formula_count :: "element_ref \<Rightarrow> formula" where
  "Formula_count element = CountL element"

definition Formula_has :: "element_ref \<Rightarrow> formula" where
  "Formula_has element = HasL element"

definition Formula_if :: "formula \<Rightarrow> formula \<Rightarrow> formula \<Rightarrow> formula" where
  "Formula_if expr if_true if_false = IfL expr if_true if_false"

text \<open>
  The second operand of an operator is a callable or a bare value:
  \<open>func = value if callable(value) else lambda character: value\<close>.
\<close>

datatype operand = Callable formula | Bare val

fun as_func :: "operand \<Rightarrow> formula" where
  "as_func (Callable f) = f"
| "as_func (Bare v) = ConstL v"

text \<open>
  \<open>_operator\<close> wraps \<open>lambda character: operator(self.function(character),
  func(character))\<close> and \<open>_roperator\<close> wraps \<open>lambda character:
  operator(func(character), self.function(character))\<close>; Python evaluates the arguments of
  a call from left to right.
\<close>

definition Formula_operator :: "formula \<Rightarrow> (val \<Rightarrow> val \<Rightarrow> error + val) \<Rightarrow> operand \<Rightarrow> formula" where
  "Formula_operator self operator v = OperatorL operator self (as_func v)"

definition Formula_roperator :: "formula \<Rightarrow> (val \<Rightarrow> val \<Rightarrow> error + val) \<Rightarrow> operand \<Rightarrow> formula" where
  "Formula_roperator self operator v = OperatorL operator (as_func v) self"

text \<open>
  The functions \<open>add\<close>, \<open>sub\<close>, \<open>mul\<close> and \<open>floordiv\<close> of Python's module
  \<open>operator\<close> on integers and booleans. Python's \<open>//\<close> rounds towards minus infinity,
  as \<open>div\<close> on \<open>int\<close> does, and raises \<open>ZeroDivisionError\<close> for a zero divisor.
  \<open>truediv\<close> yields a float; it is a parameter of the methods that use it.
\<close>

definition add :: "val \<Rightarrow> val \<Rightarrow> error + val" where
  "add x y = Inr (IntV (as_int x + as_int y))"

definition sub :: "val \<Rightarrow> val \<Rightarrow> error + val" where
  "sub x y = Inr (IntV (as_int x - as_int y))"

definition mul :: "val \<Rightarrow> val \<Rightarrow> error + val" where
  "mul x y = Inr (IntV (as_int x * as_int y))"

definition floordiv :: "val \<Rightarrow> val \<Rightarrow> error + val" where
  "floordiv x y = (if as_int y = 0 then Inl ZeroDivisionError else Inr (IntV (as_int x div as_int y)))"

definition Formula_add :: "formula \<Rightarrow> operand \<Rightarrow> formula" where
  "Formula_add self func = Formula_operator self add func"

definition Formula_sub :: "formula \<Rightarrow> operand \<Rightarrow> formula" where
  "Formula_sub self func = Formula_operator self sub func"

definition Formula_mul :: "formula \<Rightarrow> operand \<Rightarrow> formula" where
  "Formula_mul self func = Formula_operator self mul func"

definition Formula_truediv :: "(val \<Rightarrow> val \<Rightarrow> error + val) \<Rightarrow> formula \<Rightarrow> operand \<Rightarrow> formula" where
  "Formula_truediv truediv self func = Formula_operator self truediv func"

definition Formula_floordiv :: "formula \<Rightarrow> operand \<Rightarrow> formula" where
  "Formula_floordiv self func = Formula_operator self floordiv func"

definition Formula_radd :: "formula \<Rightarrow> operand \<Rightarrow> formula" where
  "Formula_radd self func = Formula_roperator self add func"

definition Formula_rsub :: "formula \<Rightarrow> operand \<Rightarrow> formula" where
  "Formula_rsub self func = Formula_roperator self sub func"

definition Formula_rmul :: "formula \<Rightarrow> operand \<Rightarrow> formula" where
  "Formula_rmul self func = Formula_roperator self mul func"

definition Formula_rtruediv :: "(val \<Rightarrow> val \<Rightarrow> error + val) \<Rightarrow> formula \<Rightarrow> operand \<Rightarrow> formula" where
  "Formula_rtruediv truediv self func = Formula_roperator self truediv func"

definition Formula_rfloordiv :: "formula \<Rightarrow> operand \<Rightarrow> formula" where
  "Formula_rfloordiv self func = Formula_roperator self floordiv func"

section \<open>Predicates of the statements\<close>

text \<open>
  \<open>type in self.registry and id in self.registry[type]\<close>: the pair is a key of the registry.
\<close>

definition present :: "Registry \<Rightarrow> int \<Rightarrow> string \<Rightarrow> bool" where
  "present self t i = (case self t of None \<Rightarrow> False | Some r \<Rightarrow> i \<in> set (map fst r))"

text \<open>
  What every dictionary of a registry satisfies: its keys are distinct, and a class is
  stored under its own id in the dictionary of its own type. The empty registry satisfies
  it and \<open>register\<close> keeps it (\<open>Registry_wf_init\<close>, \<open>Registry_wf_register\<close>).
\<close>

definition Registry_wf :: "Registry \<Rightarrow> bool" where
  "Registry_wf reg \<longleftrightarrow>
     (\<forall>t r. reg t = Some r \<longrightarrow>
        distinct (map fst r) \<and> (\<forall>(i, d) \<in> set r. cls_id d = i \<and> cls_type d = t))"

text \<open>
  \<open>els.get(t, [])\<close> on the dictionary of groups.
\<close>

definition group_of :: "(int \<rightharpoonup> inst list) \<Rightarrow> int \<Rightarrow> inst list" where
  "group_of els t = (case els t of None \<Rightarrow> [] | Some xs \<Rightarrow> xs)"

text \<open>
  Two states of a character hold the same instances: the same registry, the same groups
  of the other types, and in the VARIABLE group instances of the same classes at the same
  positions. Only the flags \<open>_lock\<close> may differ.
\<close>

definition same_instances :: "character \<Rightarrow> character \<Rightarrow> bool" where
  "same_instances c c' \<longleftrightarrow>
     registry c' = registry c \<and>
     (\<forall>t. t \<noteq> VARIABLE \<longrightarrow> elements c' t = elements c t) \<and>
     (elements c VARIABLE \<noteq> None \<longrightarrow> elements c' VARIABLE \<noteq> None) \<and>
     map inst_cls (get_elements_by_type c' VARIABLE) = map inst_cls (get_elements_by_type c VARIABLE)"

text \<open>
  The number of variable instances of a character whose flag is clear.
\<close>

fun is_unlocked :: "inst \<Rightarrow> bool" where
  "is_unlocked (ElementObj d) = False"
| "is_unlocked (VariableObj d l) = (\<not> l)"

definition unlocked :: "character \<Rightarrow> nat" where
  "unlocked c = length (filter is_unlocked (get_elements_by_type c VARIABLE))"

section \<open>Examples\<close>

text \<open>
  Element classes: two classes and a spell that shares its id with one of them, a second
  class with the pair of the first, and a class that is never registered.
\<close>

definition wizard :: descriptor where
  "wizard = ElementCls CLASS ''wizard'' ''Wizard''"

definition fighter :: descriptor where
  "fighter = ElementCls CLASS ''fighter'' ''Fighter''"

definition wizard_spell :: descriptor where
  "wizard_spell = ElementCls SPELL ''wizard'' ''Wizard (spell)''"

definition wizard2 :: descriptor where
  "wizard2 = ElementCls CLASS ''wizard'' ''Another wizard''"

definition rogue :: descriptor where
  "rogue = ElementCls CLASS ''rogue'' ''Rogue''"

definition reg_wizard :: Registry where
  "reg_wizard = Map.empty(CLASS \<mapsto> [(''wizard'', wizard)])"

text \<open>
  A registry with a variable that counts wizards, a construction list that names elements
  by class and by tuple and also names the variable, and the character built from them.
\<close>

definition level :: descriptor where
  "level = VariableCls ''level'' ''Level'' (Formula_count (TupleRef CLASS ''wizard''))"

definition reg_party :: Registry where
  "reg_party = Map.empty(
     CLASS \<mapsto> [(''wizard'', wizard), (''fighter'', fighter)],
     SPELL \<mapsto> [(''wizard'', wizard_spell)],
     VARIABLE \<mapsto> [(''level'', level)])"

definition party :: "element_ref list" where
  "party = [ClsRef (Subclass wizard), TupleRef CLASS ''fighter'', TupleRef CLASS ''wizard'',
            ClsRef (Subclass wizard_spell), ClsRef (Subclass level), ClsRef (Subclass wizard)]"

definition c_party :: character where
  "c_party = \<lparr>elements = Map.empty(
       CLASS \<mapsto> [ElementObj wizard, ElementObj fighter, ElementObj wizard, ElementObj wizard],
       SPELL \<mapsto> [ElementObj wizard_spell],
       VARIABLE \<mapsto> [VariableObj level False]),
     registry = reg_party\<rparr>"



text \<open>
  A variable whose formula reads a variable that does not exist; the character with the flag of the variable as given.
\<close>

definition broken :: descriptor where
  "broken = VariableCls ''a'' ''A'' (Formula_var ''missing'')"

definition reg_broken :: Registry where
  "reg_broken = Map.empty(VARIABLE \<mapsto> [(''a'', broken)])"

definition c_broken :: "bool \<Rightarrow> character" where
  "c_broken lock = \<lparr>elements = Map.empty(VARIABLE \<mapsto> [VariableObj broken lock]), registry = reg_broken\<rparr>"

text \<open>
  Two variables that read a third one, which counts a class by tuple; the character over
  a registry, with the three flags as given.
\<close>

definition dep_a :: descriptor where
  "dep_a = VariableCls ''a'' ''A'' (Formula_var ''c'')"

definition dep_b :: descriptor where
  "dep_b = VariableCls ''b'' ''B'' (Formula_var ''c'')"

definition dep_c :: descriptor where
  "dep_c = VariableCls ''c'' ''C'' (Formula_count (TupleRef CLASS ''wizard''))"

definition reg_dep :: Registry where
  "reg_dep = Map.empty(VARIABLE \<mapsto> [(''a'', dep_a), (''b'', dep_b), (''c'', dep_c)])"

definition reg_dep_wizard :: Registry where
  "reg_dep_wizard = reg_dep(CLASS \<mapsto> [(''wizard'', wizard)])"

definition c_dep :: "Registry \<Rightarrow> bool \<Rightarrow> bool \<Rightarrow> bool \<Rightarrow> character" where
  "c_dep reg la lb lc =
     \<lparr>elements = Map.empty(VARIABLE \<mapsto> [VariableObj dep_a la, VariableObj dep_b lb, VariableObj dep_c lc]),
      registry = reg\<rparr>"

text \<open>
  Two variables that read each other.
\<close>

definition cyc_a :: descriptor where
  "cyc_a = VariableCls ''a'' ''A'' (Formula_var ''b'')"

definition cyc_b :: descriptor where
  "cyc_b = VariableCls ''b'' ''B'' (Formula_var ''a'')"

definition reg_cyc :: Registry where
  "reg_cyc = Map.empty(VARIABLE \<mapsto> [(''a'', cyc_a), (''b'', cyc_b)])"

definition c_cyc :: "bool \<Rightarrow> bool \<Rightarrow> character" where
  "c_cyc la lb =
     \<lparr>elements = Map.empty(VARIABLE \<mapsto> [VariableObj cyc_a la, VariableObj cyc_b lb]),
      registry = reg_cyc\<rparr>"

section \<open>The registry\<close>

lemma get_KeyError_iff: "Registry_get reg t i = Inl KeyError \<longleftrightarrow> \<not> present reg t i"
  by (auto simp: Registry_get_def present_def map_of_eq_None_iff[symmetric] split: option.splits)

lemma get_Inr_or_KeyError: "Registry_get reg t i = Inl KeyError \<or> (\<exists>d. Registry_get reg t i = Inr d)"
  by (auto simp: Registry_get_def split: option.splits)

lemma get_Inr_mem: "Registry_get reg t i = Inr d \<Longrightarrow> (i, d) \<in> set (Registry_getitem reg t)"
  by (auto simp: Registry_get_def Registry_getitem_def map_of_SomeD split: option.splits)

lemma register_present:
  "present reg (cls_type d) (cls_id d) \<Longrightarrow> Registry_register reg (Subclass d) = Inl ValueError"
  by (auto simp: present_def map_of_eq_None_iff split: option.splits)

lemma update_absent: "k \<notin> fst ` set al \<Longrightarrow> AList.update k v al = al @ [(k, v)]"
  by (induction al) auto

lemma register_absent:
  "\<not> present reg (cls_type d) (cls_id d) \<Longrightarrow>
   Registry_register reg (Subclass d) =
     Inr (reg(cls_type d \<mapsto> Registry_getitem reg (cls_type d) @ [(cls_id d, d)]))"
  by (auto simp: present_def Registry_getitem_def map_of_eq_None_iff update_absent
       split: option.splits)

lemma register_get_same:
  "Registry_register reg (Subclass d) = Inr reg' \<Longrightarrow> Registry_get reg' (cls_type d) (cls_id d) = Inr d"
  by (auto simp: Registry_get_def Let_def AList.update_conv' split: if_splits)

lemma register_get_other:
  "Registry_register reg (Subclass d) = Inr reg' \<Longrightarrow> (t, i) \<noteq> (cls_type d, cls_id d) \<Longrightarrow>
   Registry_get reg' t i = Registry_get reg t i"
  by (auto simp: Registry_get_def Let_def AList.update_conv' split: if_splits option.splits)

lemma register_then_present:
  "Registry_register reg (Subclass d) = Inr reg' \<Longrightarrow> present reg' (cls_type d) (cls_id d)"
  using register_get_same[of reg d reg'] get_KeyError_iff[of reg' "cls_type d" "cls_id d"] by auto

lemma Registry_wf_init: "Registry_wf Registry_init"
  by (simp add: Registry_wf_def Registry_init_def)

lemma Registry_wf_register:
  assumes "Registry_wf reg" and "Registry_register reg cl = Inr reg'"
  shows "Registry_wf reg'"
proof (cases cl)
  case Element
  with assms(2) show ?thesis by simp
next
  case (Subclass d)
  with assms(2) have absent: "\<not> present reg (cls_type d) (cls_id d)"
    using register_present[of reg d] by auto
  from register_absent[OF absent] assms(2) Subclass
  have reg': "reg' = reg(cls_type d \<mapsto> Registry_getitem reg (cls_type d) @ [(cls_id d, d)])"
    by simp
  from absent have notin: "cls_id d \<notin> fst ` set (Registry_getitem reg (cls_type d))"
    by (auto simp: present_def Registry_getitem_def split: option.splits)
  have old: "distinct (map fst (Registry_getitem reg (cls_type d))) \<and>
      (\<forall>(i, d') \<in> set (Registry_getitem reg (cls_type d)). cls_id d' = i \<and> cls_type d' = cls_type d)"
  proof (cases "reg (cls_type d)")
    case None
    then show ?thesis by (simp add: Registry_getitem_def)
  next
    case (Some r)
    with assms(1) have "distinct (map fst r) \<and> (\<forall>(i, d') \<in> set r. cls_id d' = i \<and> cls_type d' = cls_type d)"
      unfolding Registry_wf_def by blast
    with Some show ?thesis by (simp add: Registry_getitem_def)
  qed
  show ?thesis
    unfolding Registry_wf_def
  proof (intro allI impI)
    fix t r assume r: "reg' t = Some r"
    show "distinct (map fst r) \<and> (\<forall>(i, d) \<in> set r. cls_id d = i \<and> cls_type d = t)"
    proof (cases "t = cls_type d")
      case True
      with r reg' have "r = Registry_getitem reg (cls_type d) @ [(cls_id d, d)]" by simp
      with old notin True show ?thesis by auto
    next
      case False
      with r reg' have "reg t = Some r" by simp
      with assms(1) show ?thesis unfolding Registry_wf_def by blast
    qed
  qed
qed

section \<open>Construction of a character\<close>

lemma inst_cls_instantiate: "inst_cls (instantiate d) = d"
  by (cases d) simp_all

lemma instantiate_Variable: "is_Variable d \<Longrightarrow> instantiate d = VariableObj d False"
  by (cases d) simp_all

lemma init_variables_result:
  "init_variables ds vs =
     (if \<forall>d\<in>set ds. is_Variable d then Inr (vs @ map instantiate ds) else Inl AssertionError)"
proof (induction ds arbitrary: vs)
  case Nil
  then show ?case by simp
next
  case (Cons d ds)
  have "is_Variable d \<Longrightarrow> cls_type d = VARIABLE" by (cases d) simp_all
  with Cons show ?case by auto
qed

lemma init_elements_Inr:
  "init_elements reg refs els = Inr els' \<Longrightarrow>
   \<exists>ds. map (resolve reg) refs = map (\<lambda>d. Inr (Subclass d)) ds \<and>
        (\<forall>t. group_of els' t = group_of els t @ map instantiate (filter (\<lambda>d. cls_type d = t) ds))"
proof (induction refs arbitrary: els)
  case Nil
  then show ?case by simp
next
  case (Cons r refs)
  from Cons.prems obtain d where d: "resolve reg r = Inr (Subclass d)"
    and rest: "init_elements reg refs
       (els(cls_type d \<mapsto> group_of els (cls_type d) @ [instantiate d])) = Inr els'"
    by (auto simp: group_of_def split: sum.splits cls.splits)
  from Cons.IH[OF rest] obtain ds where ds: "map (resolve reg) refs = map (\<lambda>d. Inr (Subclass d)) ds"
    and g: "\<forall>t. group_of els' t =
        group_of (els(cls_type d \<mapsto> group_of els (cls_type d) @ [instantiate d])) t @
        map instantiate (filter (\<lambda>d. cls_type d = t) ds)"
    by blast
  have "map (resolve reg) (r # refs) = map (\<lambda>d. Inr (Subclass d)) (d # ds)"
    using d ds by simp
  moreover have "\<forall>t. group_of els' t =
      group_of els t @ map instantiate (filter (\<lambda>d. cls_type d = t) (d # ds))"
    using g by (auto simp: group_of_def)
  ultimately show ?case by blast
qed



lemma init_elements_errors:
  "init_elements reg refs els = Inl e \<Longrightarrow> e = KeyError \<or> e = AttributeError"
proof (induction refs arbitrary: els)
  case Nil
  then show ?case by simp
next
  case (Cons r refs)
  show ?case
  proof (cases r)
    case (ClsRef cl)
    with Cons show ?thesis by (cases cl) auto
  next
    case (TupleRef t i)
    with Cons show ?thesis
      by (auto simp: Registry_get_def split: sum.splits option.splits)
  qed
qed

lemma get_elements_by_type_group_of: "get_elements_by_type c t = group_of (elements c) t"
  by (simp add: get_elements_by_type_def group_of_def)

lemma Character_init_Inr:
  assumes "Character_init refs reg = Inr c"
  shows "registry c = reg"
    and "get_elements_by_type c VARIABLE = map instantiate (map snd (Registry_getitem reg VARIABLE))"
    and "\<forall>d\<in>set (map snd (Registry_getitem reg VARIABLE)). is_Variable d"
    and "\<exists>ds. map (resolve reg) refs = map (\<lambda>d. Inr (Subclass d)) ds \<and>
           (\<forall>t. t \<noteq> VARIABLE \<longrightarrow>
              get_elements_by_type c t = map instantiate (filter (\<lambda>d. cls_type d = t) ds))"
proof -
  from assms obtain els vs where els: "init_elements reg refs Map.empty = Inr els"
    and vs: "init_variables (map snd (Registry_getitem reg VARIABLE)) [] = Inr vs"
    and c: "c = \<lparr>elements = els(VARIABLE \<mapsto> vs), registry = reg\<rparr>"
    by (auto simp: Character_init_def split: sum.splits)
  from c show "registry c = reg" by simp
  from vs have all: "\<forall>d\<in>set (map snd (Registry_getitem reg VARIABLE)). is_Variable d"
    and vs': "vs = map instantiate (map snd (Registry_getitem reg VARIABLE))"
    by (auto simp: init_variables_result split: if_splits)
  from all show "\<forall>d\<in>set (map snd (Registry_getitem reg VARIABLE)). is_Variable d" .
  from c vs' show "get_elements_by_type c VARIABLE = map instantiate (map snd (Registry_getitem reg VARIABLE))"
    by (simp add: get_elements_by_type_def)
  from init_elements_Inr[OF els] obtain ds where
    ds: "map (resolve reg) refs = map (\<lambda>d. Inr (Subclass d)) ds"
    and g: "\<forall>t. group_of els t = group_of Map.empty t @ map instantiate (filter (\<lambda>d. cls_type d = t) ds)"
    by blast
  have "\<forall>t. t \<noteq> VARIABLE \<longrightarrow>
      get_elements_by_type c t = map instantiate (filter (\<lambda>d. cls_type d = t) ds)"
    using g c by (simp add: get_elements_by_type_group_of group_of_def)
  with ds show "\<exists>ds. map (resolve reg) refs = map (\<lambda>d. Inr (Subclass d)) ds \<and>
           (\<forall>t. t \<noteq> VARIABLE \<longrightarrow>
              get_elements_by_type c t = map instantiate (filter (\<lambda>d. cls_type d = t) ds))"
    by blast
qed

lemma Character_init_typed:
  assumes "Character_init refs reg = Inr c" and "x \<in> set (get_elements_by_type c t)"
  shows "cls_type (inst_cls x) = t"
proof (cases "t = VARIABLE")
  case True
  with assms(2) Character_init_Inr(2,3)[OF assms(1)] obtain d where "is_Variable d" "x = instantiate d"
    by auto
  then show ?thesis using True by (cases d) simp_all
next
  case False
  with Character_init_Inr(4)[OF assms(1)] assms(2) show ?thesis
    by (auto simp: inst_cls_instantiate)
qed








section \<open>Counting\<close>

lemma count_distinct:
  "distinct ks \<Longrightarrow> length (filter (\<lambda>k. k = i) ks) = (if i \<in> set ks then 1 else 0)"
  by (induction ks) auto

lemma count_distinct_keys:
  assumes "distinct (map fst al)" and "\<forall>(i, d)\<in>set al. cls_id d = i"
  shows "length (filter (\<lambda>d. cls_id d = i) (map snd al)) = (if i \<in> set (map fst al) then 1 else 0)"
proof -
  from assms(2) have ids: "map cls_id (map snd al) = map fst al" by (induction al) auto
  have "length (filter (\<lambda>d. cls_id d = i) (map snd al)) =
      length (filter (\<lambda>k. k = i) (map cls_id (map snd al)))"
    by (simp only: filter_map length_map o_def)
  also have "\<dots> = (if i \<in> set (map fst al) then 1 else 0)"
    unfolding ids using assms(1) by (rule count_distinct)
  finally show ?thesis .
qed

lemma filter_map_instantiate:
  "filter (\<lambda>x. P (inst_cls x)) (map instantiate ds) = map instantiate (filter P ds)"
  by (induction ds) (simp_all add: inst_cls_instantiate)

lemma count_elements_ClsRef:
  "count_elements c (ClsRef (Subclass d)) =
     Inr (int (length (filter (\<lambda>x. cls_id (inst_cls x) = cls_id d)
                        (get_elements_by_type c (cls_type d)))))"
proof -
  have "(\<lambda>x. cls_id d = cls_id (inst_cls x)) = (\<lambda>x. cls_id (inst_cls x) = cls_id d)" by auto
  then show ?thesis by simp
qed

lemma count_elements_TupleRef:
  "count_elements c (TupleRef t i) =
     (case Registry_get (registry c) t i of
        Inl e \<Rightarrow> Inl e
      | Inr d \<Rightarrow> count_elements c (ClsRef (Subclass d)))"
  by (simp split: sum.splits)





section \<open>Evaluation: what it changes, and that it ends\<close>

lemma same_instances_refl: "same_instances c c"
  by (simp add: same_instances_def)

lemma same_instances_trans: "same_instances a b \<Longrightarrow> same_instances b c \<Longrightarrow> same_instances a c"
  by (simp add: same_instances_def)

lemma map_inst_cls_update:
  "map inst_cls (xs[k := VariableObj (inst_cls (xs ! k)) b]) = map inst_cls xs"
proof (cases "k < length xs")
  case True
  then show ?thesis by (simp add: map_update list_update_same_conv)
next
  case False
  then have "length xs \<le> k" by simp
  then have "xs[k := VariableObj (inst_cls (xs ! k)) b] = xs" by (rule list_update_beyond)
  then show ?thesis by simp
qed

lemma same_instances_set_lock: "same_instances c (set_lock c k b)"
  by (simp add: same_instances_def set_lock_def get_elements_by_type_def variable_at_def
      map_inst_cls_update)

declare Variable_call.simps [simp del] get_variable.simps [simp del]

lemma eval_same_instances:
  "Formula_call n f c = Some (r, c') \<Longrightarrow> same_instances c c'"
  "get_variable n c name = Some (r, c') \<Longrightarrow> same_instances c c'"
  "Variable_call n k c = Some (r, c') \<Longrightarrow> same_instances c c'"
proof (induction n f c and n c name and n k c arbitrary: r c' and r c' and r c'
    rule: Formula_call_get_variable_Variable_call.induct)
  case (1 n v c)
  then show ?case by (simp add: same_instances_refl)
next
  case (2 n name c)
  then show ?case by simp
next
  case (3 n element c)
  then show ?case by (auto simp: same_instances_refl split: sum.splits)
next
  case (4 n element c)
  then show ?case by (auto simp: same_instances_refl split: sum.splits)
next
  case (5 n expr if_true if_false c)
  from "5.prems" obtain r1 c1 where e: "Formula_call n expr c = Some (r1, c1)"
    by (auto split: option.splits)
  have s1: "same_instances c c1" using "5.IH"(1)[OF e] .
  show ?case
  proof (cases r1)
    case (Inl e1)
    with e "5.prems" s1 show ?thesis by simp
  next
    case (Inr b)
    show ?thesis
    proof (cases "truthy b")
      case True
      with e Inr "5.prems" have "Formula_call n if_true c1 = Some (r, c')" by simp
      from "5.IH"(2)[OF e refl Inr True this] s1 show ?thesis
        by (rule same_instances_trans[rotated])
    next
      case False
      with e Inr "5.prems" have "Formula_call n if_false c1 = Some (r, c')" by simp
      from "5.IH"(3)[OF e refl Inr False this] s1 show ?thesis
        by (rule same_instances_trans[rotated])
    qed
  qed
next
  case (6 n operator f g c)
  from "6.prems" obtain r1 c1 where e: "Formula_call n f c = Some (r1, c1)"
    by (auto split: option.splits)
  have s1: "same_instances c c1" using "6.IH"(1)[OF e] .
  show ?case
  proof (cases r1)
    case (Inl e1)
    with e "6.prems" s1 show ?thesis by simp
  next
    case (Inr x)
    from e Inr "6.prems" obtain r2 c2 where e2: "Formula_call n g c1 = Some (r2, c2)"
      by (auto split: option.splits)
    have s2: "same_instances c1 c2" using "6.IH"(2)[OF e refl Inr e2] .
    from e Inr e2 "6.prems" have "c' = c2"
      by (auto split: sum.splits)
    with s1 s2 show ?thesis by (auto intro: same_instances_trans)
  qed
next
  case (7 n c name)
  then show ?case
    by (auto simp: get_variable.simps same_instances_refl split: sum.splits option.splits)
next
  case (8 n k c)
  show ?case
  proof (cases "variable_at c k")
    case (ElementObj d)
    with "8.prems" show ?thesis by (simp add: Variable_call.simps same_instances_refl)
  next
    case (VariableObj d lock)
    show ?thesis
    proof (cases lock)
      case True
      with VariableObj "8.prems" show ?thesis by (simp add: Variable_call.simps same_instances_refl)
    next
      case False
      show ?thesis
      proof (cases d)
        case (ElementCls t i nm)
        with VariableObj False "8.prems" show ?thesis
          by (auto simp: Variable_call.simps same_instances_set_lock)
      next
        case (VariableCls i nm formula)
        show ?thesis
        proof (cases n)
          case 0
          with VariableObj False VariableCls "8.prems" show ?thesis
            by (simp add: Variable_call.simps)
        next
          case (Suc m)
          from VariableObj False VariableCls Suc "8.prems"
          obtain r2 c2 where e: "Formula_call m formula (set_lock c k True) = Some (r2, c2)"
            and c': "c' = c2 \<or> c' = set_lock c2 k False"
            by (auto simp: Variable_call.simps split: option.splits sum.splits)
          have "same_instances (set_lock c k True) c2"
            using "8.IH"[OF VariableObj _ refl VariableCls Suc e] False by simp
          with same_instances_set_lock[of c k True] have "same_instances c c2"
            by (rule same_instances_trans)
          with c' same_instances_set_lock[of c2 k False] show ?thesis
            by (auto intro: same_instances_trans)
        qed
      qed
    qed
  qed
qed

lemma variables_loop_range:
  "variables_loop vs k0 m name = Some k \<Longrightarrow> m name = Some k \<or> (k0 \<le> k \<and> k < k0 + length vs)"
proof (induction vs arbitrary: k0 m)
  case Nil
  then show ?case by simp
next
  case (Cons v vs)
  from Cons.IH[OF Cons.prems[simplified]] show ?case
    by (auto split: if_splits)
qed

lemma variables_in_range:
  assumes "variables c = Inr vars" and "vars name = Some k"
  shows "elements c VARIABLE \<noteq> None \<and> k < length (get_elements_by_type c VARIABLE)"
proof -
  from assms(1) obtain vs where vs: "elements c VARIABLE = Some vs"
    and vars: "vars = variables_loop vs 0 Map.empty"
    by (auto simp: variables_def split: option.splits)
  from assms(2) vars variables_loop_range[of vs 0 Map.empty name k] have "k < length vs" by simp
  with vs show ?thesis by (simp add: get_elements_by_type_def)
qed

lemma set_lock_restore:
  assumes "elements c VARIABLE \<noteq> None" and "k < length (get_elements_by_type c VARIABLE)"
    and "variable_at c k = VariableObj d False"
  shows "set_lock (set_lock c k True) k False = c"
proof -
  from assms(1) obtain vs where vs: "elements c VARIABLE = Some vs" by auto
  with assms(2,3) have k: "k < length vs" and at: "vs ! k = VariableObj d False"
    by (simp_all add: get_elements_by_type_def variable_at_def)
  from at k have "vs[k := VariableObj d False] = vs" by (simp add: list_update_same_conv)
  with vs k at show ?thesis
    by (simp add: set_lock_def get_elements_by_type_def variable_at_def fun_upd_idem)
qed

text \<open>
  An evaluation that returns a value leaves the character as it was: every flag it set is clear again.
\<close>

lemma eval_value_restores:
  "Formula_call n f c = Some (Inr v, c') \<Longrightarrow> c' = c"
  "get_variable n c name = Some (Inr v, c') \<Longrightarrow> c' = c"
  "Variable_call n k c = Some (Inr v, c') \<Longrightarrow> elements c VARIABLE \<noteq> None \<Longrightarrow>
     k < length (get_elements_by_type c VARIABLE) \<Longrightarrow> c' = c"
proof (induction n f c and n c name and n k c arbitrary: v c' and v c' and v c'
    rule: Formula_call_get_variable_Variable_call.induct)
  case (1 n v c)
  then show ?case by simp
next
  case (2 n name c)
  then show ?case by simp
next
  case (3 n element c)
  then show ?case by (auto split: sum.splits)
next
  case (4 n element c)
  then show ?case by (auto split: sum.splits)
next
  case (5 n expr if_true if_false c)
  from "5.prems" obtain b c1 where e: "Formula_call n expr c = Some (Inr b, c1)"
    by (auto split: option.splits sum.splits)
  have c1: "c1 = c" using "5.IH"(1)[OF e] .
  show ?case
  proof (cases "truthy b")
    case True
    with e "5.prems" have "Formula_call n if_true c1 = Some (Inr v, c')" by simp
    from "5.IH"(2)[OF e refl refl True this] c1 show ?thesis by simp
  next
    case False
    with e "5.prems" have "Formula_call n if_false c1 = Some (Inr v, c')" by simp
    from "5.IH"(3)[OF e refl refl False this] c1 show ?thesis by simp
  qed
next
  case (6 n operator f g c)
  from "6.prems" obtain x c1 where e: "Formula_call n f c = Some (Inr x, c1)"
    by (auto split: option.splits sum.splits)
  have c1: "c1 = c" using "6.IH"(1)[OF e] .
  from e "6.prems" obtain y where e2: "Formula_call n g c1 = Some (Inr y, c')"
    by (auto split: option.splits sum.splits)
  from "6.IH"(2)[OF e refl refl e2] c1 show ?case by simp
next
  case (7 n c name)
  from "7.prems" obtain vars k where vars: "variables c = Inr vars" and k: "vars name = Some k"
    and call: "Variable_call n k c = Some (Inr v, c')"
    by (auto simp: get_variable.simps split: sum.splits option.splits)
  from variables_in_range[OF vars k] "7.IH"[OF vars k call] show ?case by simp
next
  case (8 n k c)
  from "8.prems"(1) obtain i nm formula m c2 where at: "variable_at c k = VariableObj (VariableCls i nm formula) False"
    and n: "n = Suc m"
    and e: "Formula_call m formula (set_lock c k True) = Some (Inr v, c2)"
    and c': "c' = set_lock c2 k False"
    by (auto simp: Variable_call.simps Let_def
        split: inst.splits if_splits descriptor.splits nat.splits option.splits sum.splits)
  have "c2 = set_lock c k True"
    using "8.IH"[OF at _ refl refl n e] by simp
  with c' set_lock_restore[OF "8.prems"(2,3) at] show ?case by simp
qed

lemma Variable_call_locked:
  "variable_at c k = VariableObj d True \<Longrightarrow> Variable_call n k c = Some (Inl (CircularDependencyError k), c)"
  by (simp add: Variable_call.simps)

lemma Variable_call_unlocked:
  "variable_at c k = VariableObj (VariableCls i nm f) False \<Longrightarrow>
   Variable_call (Suc m) k c =
     (case Formula_call m f (set_lock c k True) of
        None \<Rightarrow> None
      | Some (Inl e, c2) \<Rightarrow> Some (Inl e, c2)
      | Some (Inr v, c2) \<Rightarrow> Some (Inr v, set_lock c2 k False))"
  by (simp add: Variable_call.simps)

text \<open>
  The result of an evaluation does not depend on the bound, once the bound is large enough
  for it to end.
\<close>

lemma eval_fuel_mono:
  "Formula_call n f c = Some r \<Longrightarrow> Formula_call (Suc n) f c = Some r"
  "get_variable n c name = Some r \<Longrightarrow> get_variable (Suc n) c name = Some r"
  "Variable_call n k c = Some r \<Longrightarrow> Variable_call (Suc n) k c = Some r"
proof (induction n f c and n c name and n k c arbitrary: r and r and r
    rule: Formula_call_get_variable_Variable_call.induct)
  case (1 n v c)
  then show ?case by simp
next
  case (2 n name c)
  then show ?case by simp
next
  case (3 n element c)
  then show ?case by simp
next
  case (4 n element c)
  then show ?case by simp
next
  case (5 n expr if_true if_false c)
  from "5.prems" obtain r1 c1 where e: "Formula_call n expr c = Some (r1, c1)"
    by (auto split: option.splits)
  note e' = "5.IH"(1)[OF e]
  show ?case
  proof (cases r1)
    case (Inl e1)
    with e e' "5.prems" show ?thesis by auto
  next
    case (Inr b)
    show ?thesis
    proof (cases "truthy b")
      case True
      with e Inr "5.prems" have "Formula_call n if_true c1 = Some r" by simp
      from "5.IH"(2)[OF e refl Inr True this] e' Inr True show ?thesis by auto
    next
      case False
      with e Inr "5.prems" have "Formula_call n if_false c1 = Some r" by simp
      from "5.IH"(3)[OF e refl Inr False this] e' Inr False show ?thesis by auto
    qed
  qed
next
  case (6 n operator f g c)
  from "6.prems" obtain r1 c1 where e: "Formula_call n f c = Some (r1, c1)"
    by (auto split: option.splits)
  note e' = "6.IH"(1)[OF e]
  show ?case
  proof (cases r1)
    case (Inl e1)
    with e e' "6.prems" show ?thesis by auto
  next
    case (Inr x)
    from e Inr "6.prems" obtain r2 where e2: "Formula_call n g c1 = Some r2"
      by (auto split: option.splits)
    note e2' = "6.IH"(2)[OF e refl Inr e2]
    from e Inr e2 e' e2' "6.prems" show ?thesis by auto
  qed
next
  case (7 n c name)
  then show ?case
    by (auto simp: get_variable.simps split: sum.splits option.splits)
next
  case (8 n k c)
  show ?case
  proof (cases "variable_at c k")
    case (ElementObj d)
    with "8.prems" show ?thesis by (simp add: Variable_call.simps)
  next
    case (VariableObj d lock)
    show ?thesis
    proof (cases lock)
      case True
      with VariableObj "8.prems" show ?thesis by (simp add: Variable_call.simps)
    next
      case False
      show ?thesis
      proof (cases d)
        case (ElementCls t i nm)
        with VariableObj False "8.prems" show ?thesis
          by (simp add: Variable_call.simps)
      next
        case (VariableCls i nm formula)
        show ?thesis
        proof (cases n)
          case 0
          with VariableObj False VariableCls "8.prems" show ?thesis
            by (simp add: Variable_call.simps)
        next
          case (Suc m)
          from VariableObj False VariableCls Suc "8.prems"
          obtain r2 where e: "Formula_call m formula (set_lock c k True) = Some r2"
            by (auto simp: Variable_call.simps split: option.splits)
          have "Formula_call (Suc m) formula (set_lock c k True) = Some r2"
            using "8.IH"[OF VariableObj _ refl VariableCls Suc e] False by simp
          with e VariableObj False VariableCls Suc "8.prems" show ?thesis
            by (simp add: Variable_call.simps)
        qed
      qed
    qed
  qed
qed

lemma Formula_call_fuel: "Formula_call n f c = Some r \<Longrightarrow> n \<le> m \<Longrightarrow> Formula_call m f c = Some r"
  by (induction m) (auto simp: le_Suc_eq eval_fuel_mono(1))

lemma get_variable_fuel: "get_variable n c name = Some r \<Longrightarrow> n \<le> m \<Longrightarrow> get_variable m c name = Some r"
  by (induction m) (auto simp: le_Suc_eq eval_fuel_mono(2))

text \<open>
  An evaluation ends: each nested \<open>Variable.__call__\<close> that gets past the check sets
  a flag that was clear, so a bound of the number of clear flags is enough.
\<close>

lemma filter_update_drop:
  assumes "k < length xs" and "P (xs ! k)" and "\<not> P y"
  shows "Suc (length (filter P (xs[k := y]))) = length (filter P xs)"
proof -
  have "length (filter P xs) = length (filter P (take k xs @ xs ! k # drop (Suc k) xs))"
    using assms(1) by (simp add: id_take_nth_drop[symmetric])
  moreover have "xs[k := y] = take k xs @ y # drop (Suc k) xs"
    using assms(1) by (rule upd_conv_take_nth_drop)
  ultimately show ?thesis using assms(2,3) by simp
qed

lemma group_set_lock:
  "get_elements_by_type (set_lock c k b) VARIABLE =
     (get_elements_by_type c VARIABLE)[k := VariableObj (inst_cls (variable_at c k)) b]"
  by (simp add: set_lock_def get_elements_by_type_def)

lemma unlocked_set_lock_True:
  assumes "k < length (get_elements_by_type c VARIABLE)" and "variable_at c k = VariableObj d False"
  shows "Suc (unlocked (set_lock c k True)) = unlocked c"
  unfolding unlocked_def group_set_lock
  using assms by (intro filter_update_drop) (simp_all add: variable_at_def)

lemma eval_unlocked_le:
  "Formula_call n f c = Some (r, c') \<Longrightarrow> unlocked c' \<le> unlocked c"
  "get_variable n c name = Some (r, c') \<Longrightarrow> unlocked c' \<le> unlocked c"
  "Variable_call n k c = Some (r, c') \<Longrightarrow> elements c VARIABLE \<noteq> None \<Longrightarrow>
     k < length (get_elements_by_type c VARIABLE) \<Longrightarrow> unlocked c' \<le> unlocked c"
proof (induction n f c and n c name and n k c arbitrary: r c' and r c' and r c'
    rule: Formula_call_get_variable_Variable_call.induct)
  case (1 n v c)
  then show ?case by simp
next
  case (2 n name c)
  then show ?case by simp
next
  case (3 n element c)
  then show ?case by (auto split: sum.splits)
next
  case (4 n element c)
  then show ?case by (auto split: sum.splits)
next
  case (5 n expr if_true if_false c)
  from "5.prems" obtain r1 c1 where e: "Formula_call n expr c = Some (r1, c1)"
    by (auto split: option.splits)
  have s1: "unlocked c1 \<le> unlocked c" using "5.IH"(1)[OF e] .
  show ?case
  proof (cases r1)
    case (Inl e1)
    with e "5.prems" s1 show ?thesis by simp
  next
    case (Inr b)
    show ?thesis
    proof (cases "truthy b")
      case True
      with e Inr "5.prems" have "Formula_call n if_true c1 = Some (r, c')" by simp
      from "5.IH"(2)[OF e refl Inr True this] s1 show ?thesis by simp
    next
      case False
      with e Inr "5.prems" have "Formula_call n if_false c1 = Some (r, c')" by simp
      from "5.IH"(3)[OF e refl Inr False this] s1 show ?thesis by simp
    qed
  qed
next
  case (6 n operator f g c)
  from "6.prems" obtain r1 c1 where e: "Formula_call n f c = Some (r1, c1)"
    by (auto split: option.splits)
  have s1: "unlocked c1 \<le> unlocked c" using "6.IH"(1)[OF e] .
  show ?case
  proof (cases r1)
    case (Inl e1)
    with e "6.prems" s1 show ?thesis by simp
  next
    case (Inr x)
    from e Inr "6.prems" obtain r2 c2 where e2: "Formula_call n g c1 = Some (r2, c2)"
      by (auto split: option.splits)
    have s2: "unlocked c2 \<le> unlocked c1" using "6.IH"(2)[OF e refl Inr e2] .
    from e Inr e2 "6.prems" have "c' = c2"
      by (auto split: sum.splits)
    with s1 s2 show ?thesis by simp
  qed
next
  case (7 n c name)
  show ?case
  proof (cases "variables c")
    case (Inl e)
    with "7.prems" show ?thesis by (simp add: get_variable.simps)
  next
    case (Inr vars)
    show ?thesis
    proof (cases "vars name")
      case None
      with Inr "7.prems" show ?thesis by (simp add: get_variable.simps)
    next
      case (Some k)
      with Inr "7.prems" have "Variable_call n k c = Some (r, c')" by (simp add: get_variable.simps)
      from "7.IH"[OF Inr Some this] variables_in_range[OF Inr Some] show ?thesis by simp
    qed
  qed
next
  case (8 n k c)
  show ?case
  proof (cases "variable_at c k")
    case (ElementObj d)
    with "8.prems" show ?thesis by (simp add: Variable_call.simps)
  next
    case (VariableObj d lock)
    show ?thesis
    proof (cases lock)
      case True
      with VariableObj "8.prems" show ?thesis by (simp add: Variable_call.simps)
    next
      case False
      from VariableObj False have at: "variable_at c k = VariableObj d False" by simp
      note dec = unlocked_set_lock_True[OF "8.prems"(3) at]
      show ?thesis
      proof (cases d)
        case (ElementCls t i nm)
        with at "8.prems"(1) have "c' = set_lock c k True"
          by (simp add: Variable_call.simps)
        with dec show ?thesis by simp
      next
        case (VariableCls i nm formula)
        show ?thesis
        proof (cases n)
          case 0
          with at VariableCls "8.prems" show ?thesis
            by (simp add: Variable_call.simps)
        next
          case (Suc m)
          from at VariableCls Suc "8.prems"(1)
          obtain r2 c2 where e: "Formula_call m formula (set_lock c k True) = Some (r2, c2)"
            by (auto simp: Variable_call.simps split: option.splits)
          have le: "unlocked c2 \<le> unlocked (set_lock c k True)"
            using "8.IH"[OF VariableObj _ refl VariableCls Suc e] False by simp
          show ?thesis
          proof (cases r2)
            case (Inl e2)
            with e at VariableCls Suc "8.prems"(1) have "c' = c2"
              by (simp add: Variable_call.simps)
            with le dec show ?thesis by simp
          next
            case (Inr v)
            with e at VariableCls Suc "8.prems"(1) have "Variable_call n k c = Some (Inr v, c')"
              by (auto simp: Variable_call.simps)
            from eval_value_restores(3)[OF this "8.prems"(2,3)] show ?thesis by simp
          qed
        qed
      qed
    qed
  qed
qed

lemma eval_total:
  "unlocked c \<le> n \<Longrightarrow> Formula_call n f c \<noteq> None"
  "unlocked c \<le> n \<Longrightarrow> get_variable n c name \<noteq> None"
  "elements c VARIABLE \<noteq> None \<Longrightarrow> k < length (get_elements_by_type c VARIABLE) \<Longrightarrow>
     unlocked c \<le> n \<Longrightarrow> Variable_call n k c \<noteq> None"
proof (induction n f c and n c name and n k c
    rule: Formula_call_get_variable_Variable_call.induct)
  case (1 n v c)
  then show ?case by simp
next
  case (2 n name c)
  then show ?case by simp
next
  case (3 n element c)
  then show ?case by (simp split: sum.splits)
next
  case (4 n element c)
  then show ?case by (simp split: sum.splits)
next
  case (5 n expr if_true if_false c)
  from "5.IH"(1)[OF "5.prems"] obtain r1 c1 where e: "Formula_call n expr c = Some (r1, c1)"
    by auto
  from eval_unlocked_le(1)[OF e] "5.prems" have le: "unlocked c1 \<le> n" by simp
  show ?case
  proof (cases r1)
    case (Inl e1)
    with e show ?thesis by simp
  next
    case (Inr b)
    show ?thesis
    proof (cases "truthy b")
      case True
      from "5.IH"(2)[OF e refl Inr True le] e Inr True show ?thesis by simp
    next
      case False
      from "5.IH"(3)[OF e refl Inr False le] e Inr False show ?thesis by simp
    qed
  qed
next
  case (6 n operator f g c)
  from "6.IH"(1)[OF "6.prems"] obtain r1 c1 where e: "Formula_call n f c = Some (r1, c1)"
    by auto
  from eval_unlocked_le(1)[OF e] "6.prems" have le: "unlocked c1 \<le> n" by simp
  show ?case
  proof (cases r1)
    case (Inl e1)
    with e show ?thesis by simp
  next
    case (Inr x)
    from "6.IH"(2)[OF e refl Inr le] e Inr show ?thesis
      by (auto split: sum.splits)
  qed
next
  case (7 n c name)
  show ?case
  proof (cases "variables c")
    case (Inl e)
    then show ?thesis by (simp add: get_variable.simps)
  next
    case (Inr vars)
    show ?thesis
    proof (cases "vars name")
      case None
      with Inr show ?thesis by (simp add: get_variable.simps)
    next
      case (Some k)
      from variables_in_range[OF Inr Some] "7.IH"[OF Inr Some] "7.prems" Inr Some
      show ?thesis by (simp add: get_variable.simps)
    qed
  qed
next
  case (8 n k c)
  show ?case
  proof (cases "variable_at c k")
    case (ElementObj d)
    then show ?thesis by (simp add: Variable_call.simps)
  next
    case (VariableObj d lock)
    show ?thesis
    proof (cases lock)
      case True
      with VariableObj show ?thesis by (simp add: Variable_call.simps)
    next
      case False
      from VariableObj False have at: "variable_at c k = VariableObj d False" by simp
      note dec = unlocked_set_lock_True[OF "8.prems"(2) at]
      show ?thesis
      proof (cases d)
        case (ElementCls t i nm)
        with at show ?thesis by (simp add: Variable_call.simps)
      next
        case (VariableCls i nm formula)
        from dec "8.prems"(3) obtain m where n: "n = Suc m" and le: "unlocked (set_lock c k True) \<le> m"
          by (cases n) auto
        from "8.IH"[OF VariableObj _ refl VariableCls n le] False
        have "Formula_call m formula (set_lock c k True) \<noteq> None" by simp
        with at VariableCls n show ?thesis
          by (auto simp: Variable_call.simps split: sum.splits)
      qed
    qed
  qed
qed

section \<open>Flags after an evaluation\<close>

text \<open>
  The dictionary \<open>variables\<close> depends on the classes of the instances only, so it is
  the same before and after an evaluation.
\<close>

lemma variables_loop_cong:
  "map inst_cls vs = map inst_cls vs' \<Longrightarrow> variables_loop vs k m = variables_loop vs' k m"
proof (induction vs arbitrary: vs' k m)
  case Nil
  then show ?case by simp
next
  case (Cons v vs)
  from Cons.prems obtain v' ws where vs': "vs' = v' # ws" and v: "inst_cls v = inst_cls v'"
    and ws: "map inst_cls vs = map inst_cls ws"
    by (cases vs') auto
  have "variables_loop (v # vs) k m = variables_loop vs (Suc k) (m(cls_id (inst_cls v) \<mapsto> k))"
    by simp
  also have "\<dots> = variables_loop ws (Suc k) (m(cls_id (inst_cls v) \<mapsto> k))"
    by (rule Cons.IH[OF ws])
  also have "\<dots> = variables_loop (v' # ws) k m"
    by (simp only: variables_loop.simps v)
  finally show ?case by (simp only: vs')
qed

lemma variables_same_instances:
  assumes "same_instances c c'" and "elements c VARIABLE \<noteq> None"
  shows "variables c' = variables c"
proof -
  from assms obtain vs vs' where "elements c VARIABLE = Some vs" "elements c' VARIABLE = Some vs'"
    by (auto simp: same_instances_def)
  moreover with assms(1) have "map inst_cls vs' = map inst_cls vs"
    by (simp add: same_instances_def get_elements_by_type_def)
  ultimately show ?thesis
    using variables_loop_cong[of vs' vs 0 Map.empty] by (simp add: variables_def)
qed

lemma same_instances_length:
  assumes "same_instances c c'"
  shows "length (get_elements_by_type c' VARIABLE) = length (get_elements_by_type c VARIABLE)"
proof -
  from assms have "map inst_cls (get_elements_by_type c' VARIABLE) = map inst_cls (get_elements_by_type c VARIABLE)"
    by (simp add: same_instances_def)
  then have "length (map inst_cls (get_elements_by_type c' VARIABLE)) =
      length (map inst_cls (get_elements_by_type c VARIABLE))"
    by (rule arg_cong)
  then show ?thesis by (simp only: length_map)
qed

lemma length_group_set_lock:
  "length (get_elements_by_type (set_lock c j b) VARIABLE) = length (get_elements_by_type c VARIABLE)"
  by (simp add: group_set_lock)

lemma variable_at_set_lock_other:
  "j \<noteq> k \<Longrightarrow> variable_at (set_lock c j b) k = variable_at c k"
  by (simp add: variable_at_def group_set_lock)

lemma variable_at_set_lock_same:
  "k < length (get_elements_by_type c VARIABLE) \<Longrightarrow>
   variable_at (set_lock c k b) k = VariableObj (inst_cls (variable_at c k)) b"
  by (simp add: variable_at_def group_set_lock)

text \<open>
  A flag that is set when an evaluation starts is set when it ends, whatever the outcome.
\<close>

lemma eval_keeps_locks:
  "Formula_call n f c = Some (r, c') \<Longrightarrow> k < length (get_elements_by_type c VARIABLE) \<Longrightarrow>
     variable_at c k = VariableObj d True \<Longrightarrow> variable_at c' k = VariableObj d True"
  "get_variable n c name = Some (r, c') \<Longrightarrow> k < length (get_elements_by_type c VARIABLE) \<Longrightarrow>
     variable_at c k = VariableObj d True \<Longrightarrow> variable_at c' k = VariableObj d True"
  "Variable_call n j c = Some (r, c') \<Longrightarrow> k < length (get_elements_by_type c VARIABLE) \<Longrightarrow>
     variable_at c k = VariableObj d True \<Longrightarrow> variable_at c' k = VariableObj d True"
proof (induction n f c and n c name and n j c arbitrary: r c' and r c' and r c'
    rule: Formula_call_get_variable_Variable_call.induct)
  case (1 n v c)
  then show ?case by simp
next
  case (2 n name c)
  then show ?case by simp
next
  case (3 n element c)
  then show ?case by (auto split: sum.splits)
next
  case (4 n element c)
  then show ?case by (auto split: sum.splits)
next
  case (5 n expr if_true if_false c)
  from "5.prems"(1) obtain r1 c1 where e: "Formula_call n expr c = Some (r1, c1)"
    by (auto split: option.splits)
  have at1: "variable_at c1 k = VariableObj d True" using "5.IH"(1)[OF e "5.prems"(2,3)] .
  have len1: "k < length (get_elements_by_type c1 VARIABLE)"
    using same_instances_length[OF eval_same_instances(1)[OF e]] "5.prems"(2) by simp
  show ?case
  proof (cases r1)
    case (Inl e1)
    with e "5.prems"(1) at1 show ?thesis by simp
  next
    case (Inr b)
    show ?thesis
    proof (cases "truthy b")
      case True
      with e Inr "5.prems"(1) have "Formula_call n if_true c1 = Some (r, c')" by simp
      from "5.IH"(2)[OF e refl Inr True this len1 at1] show ?thesis .
    next
      case False
      with e Inr "5.prems"(1) have "Formula_call n if_false c1 = Some (r, c')" by simp
      from "5.IH"(3)[OF e refl Inr False this len1 at1] show ?thesis .
    qed
  qed
next
  case (6 n operator f g c)
  from "6.prems"(1) obtain r1 c1 where e: "Formula_call n f c = Some (r1, c1)"
    by (auto split: option.splits)
  have at1: "variable_at c1 k = VariableObj d True" using "6.IH"(1)[OF e "6.prems"(2,3)] .
  have len1: "k < length (get_elements_by_type c1 VARIABLE)"
    using same_instances_length[OF eval_same_instances(1)[OF e]] "6.prems"(2) by simp
  show ?case
  proof (cases r1)
    case (Inl e1)
    with e "6.prems"(1) at1 show ?thesis by simp
  next
    case (Inr x)
    from e Inr "6.prems"(1) obtain r2 c2 where e2: "Formula_call n g c1 = Some (r2, c2)"
      by (auto split: option.splits)
    have at2: "variable_at c2 k = VariableObj d True" using "6.IH"(2)[OF e refl Inr e2 len1 at1] .
    from e Inr e2 "6.prems"(1) have "c' = c2"
      by (auto split: sum.splits)
    with at2 show ?thesis by simp
  qed
next
  case (7 n c name)
  show ?case
  proof (cases "variables c")
    case (Inl e)
    with "7.prems" show ?thesis by (simp add: get_variable.simps)
  next
    case (Inr vars)
    show ?thesis
    proof (cases "vars name")
      case None
      with Inr "7.prems" show ?thesis by (simp add: get_variable.simps)
    next
      case (Some j)
      with Inr "7.prems"(1) have "Variable_call n j c = Some (r, c')" by (simp add: get_variable.simps)
      from "7.IH"[OF Inr Some this "7.prems"(2,3)] show ?thesis .
    qed
  qed
next
  case (8 n j c)
  show ?case
  proof (cases "variable_at c j")
    case (ElementObj dj)
    with "8.prems" show ?thesis by (simp add: Variable_call.simps)
  next
    case (VariableObj dj lock)
    show ?thesis
    proof (cases lock)
      case True
      with VariableObj "8.prems" show ?thesis by (simp add: Variable_call.simps)
    next
      case False
      with VariableObj "8.prems"(3) have jk: "j \<noteq> k" by auto
      have at1: "variable_at (set_lock c j True) k = VariableObj d True"
        using jk "8.prems"(3) by (simp add: variable_at_set_lock_other)
      have len1: "k < length (get_elements_by_type (set_lock c j True) VARIABLE)"
        using "8.prems"(2) by (simp add: length_group_set_lock)
      show ?thesis
      proof (cases dj)
        case (ElementCls t i nm)
        with VariableObj False "8.prems"(1) have "c' = set_lock c j True"
          by (simp add: Variable_call.simps)
        with at1 show ?thesis by simp
      next
        case (VariableCls i nm formula)
        show ?thesis
        proof (cases n)
          case 0
          with VariableObj False VariableCls "8.prems" show ?thesis
            by (simp add: Variable_call.simps)
        next
          case (Suc m)
          from VariableObj False VariableCls Suc "8.prems"(1)
          obtain r2 c2 where e: "Formula_call m formula (set_lock c j True) = Some (r2, c2)"
            and c': "c' = c2 \<or> c' = set_lock c2 j False"
            by (auto simp: Variable_call.simps split: option.splits sum.splits)
          have "variable_at c2 k = VariableObj d True"
            using "8.IH"[OF VariableObj _ refl VariableCls Suc e len1 at1] False by simp
          with c' jk show ?thesis by (auto simp: variable_at_set_lock_other)
        qed
      qed
    qed
  qed
qed

text \<open>
  \<open>get_variable\<close> that returns a value leaves the character as it was, the flag of
  the variable clear.
\<close>

lemma returned_value_clears_lock:
  assumes "variables c = Inr vars" and "vars name = Some k"
    and "get_variable n c name = Some (Inr v, c')"
  shows "c' = c \<and> (\<exists>d. variable_at c' k = VariableObj d False)"
proof -
  from assms have call: "Variable_call n k c = Some (Inr v, c')" by (simp add: get_variable.simps)
  then have "\<exists>d. variable_at c k = VariableObj d False"
    by (auto simp: Variable_call.simps split: inst.splits if_splits)
  with eval_value_restores(2)[OF assms(3)] show ?thesis by simp
qed

text \<open>
  \<open>get_variable\<close> that raises, for a variable whose flag was clear, leaves the flag of
  the variable set: the assignment \<open>self._lock = False\<close> is skipped. Every later
  \<open>get_variable\<close> of the variable then raises \<open>CircularDependencyError\<close> at once.
\<close>

lemma raised_exception_keeps_lock:
  assumes vars: "variables c = Inr vars" and k: "vars name = Some k"
    and at: "variable_at c k = VariableObj d False"
    and raised: "get_variable n c name = Some (Inl e, c')"
  shows "variable_at c' k = VariableObj d True \<and>
    get_variable m c' name = Some (Inl (CircularDependencyError k), c')"
proof -
  note rng = variables_in_range[OF vars k]
  from vars k raised have call: "Variable_call n k c = Some (Inl e, c')"
    by (simp add: get_variable.simps)
  have at1: "variable_at (set_lock c k True) k = VariableObj d True"
    using rng at by (simp add: variable_at_set_lock_same)
  have len1: "k < length (get_elements_by_type (set_lock c k True) VARIABLE)"
    using rng by (simp add: length_group_set_lock)
  have locked: "variable_at c' k = VariableObj d True"
  proof (cases d)
    case (ElementCls t i nm)
    with call at have "c' = set_lock c k True" by (simp add: Variable_call.simps)
    with at1 show ?thesis by simp
  next
    case (VariableCls i nm formula)
    with call at obtain m' where "Formula_call m' formula (set_lock c k True) = Some (Inl e, c')"
      by (auto simp: Variable_call.simps split: nat.splits option.splits sum.splits)
    from eval_keeps_locks(1)[OF this len1 at1] show ?thesis .
  qed
  have "variables c' = variables c"
    using eval_same_instances(2)[OF raised] rng by (intro variables_same_instances) simp_all
  with vars k have "get_variable m c' name = Variable_call m k c'"
    by (simp add: get_variable.simps)
  with locked show ?thesis by (simp add: Variable_call_locked)
qed

section \<open>Operators\<close>

lemma Formula_operator_values:
  assumes "Formula_call n self c = Some (Inr x, c1)" and "Formula_call n (as_func v) c1 = Some (Inr y, c2)"
  shows "Formula_call n (Formula_operator self operator v) c = Some (operator x y, c2)"
  using assms by (cases "operator x y") (simp_all add: Formula_operator_def)

lemma Formula_roperator_values:
  assumes "Formula_call n (as_func v) c = Some (Inr x, c1)" and "Formula_call n self c1 = Some (Inr y, c2)"
  shows "Formula_call n (Formula_roperator self operator v) c = Some (operator x y, c2)"
  using assms by (cases "operator x y") (simp_all add: Formula_roperator_def)

lemma Formula_operator_left_raises:
  "Formula_call n self c = Some (Inl e, c1) \<Longrightarrow>
   Formula_call n (Formula_operator self operator v) c = Some (Inl e, c1)"
  by (simp add: Formula_operator_def)

lemma Formula_operator_right_raises:
  "Formula_call n self c = Some (Inr x, c1) \<Longrightarrow> Formula_call n (as_func v) c1 = Some (Inl e, c2) \<Longrightarrow>
   Formula_call n (Formula_operator self operator v) c = Some (Inl e, c2)"
  by (simp add: Formula_operator_def)

lemma Formula_roperator_left_raises:
  "Formula_call n (as_func v) c = Some (Inl e, c1) \<Longrightarrow>
   Formula_call n (Formula_roperator self operator v) c = Some (Inl e, c1)"
  by (simp add: Formula_roperator_def)

lemma Formula_roperator_right_raises:
  "Formula_call n (as_func v) c = Some (Inr x, c1) \<Longrightarrow> Formula_call n self c1 = Some (Inl e, c2) \<Longrightarrow>
   Formula_call n (Formula_roperator self operator v) c = Some (Inl e, c2)"
  by (simp add: Formula_roperator_def)

lemma as_func_call:
  "Formula_call n (as_func (Bare k)) c = Some (Inr k, c)"
  "Formula_call n (as_func (Callable g)) c = Formula_call n g c"
  by simp_all

lemma two_plus_three:
  "Formula_call n (Formula_add (Formula_const (IntV 2)) (Callable (Formula_const (IntV 3)))) c =
     Some (Inr (IntV 5), c)"
  by (simp add: Formula_add_def Formula_operator_def Formula_const_def add_def)

lemma level_times_four:
  assumes "get_variable n c ''level'' = Some (Inr v, c')"
  shows "Formula_call n (Formula_mul (Formula_var ''level'') (Callable (Formula_const (IntV 4)))) c =
     Some (Inr (IntV (4 * as_int v)), c')"
  using assms by (simp add: Formula_mul_def Formula_operator_def Formula_const_def Formula_var_def mul_def)

section \<open>The examples\<close>

lemmas example_defs = wizard_def fighter_def wizard_spell_def wizard2_def level_def rogue_def
  reg_party_def party_def c_party_def
  VARIABLE_def CLASS_def SPELL_def

lemmas eval_defs = get_variable.simps Variable_call.simps variables_def variable_at_def set_lock_def
  get_elements_by_type_def Registry_get_def Registry_getitem_def
  Formula_count_def Formula_var_def Formula_const_def Formula_has_def Formula_if_def
  VARIABLE_def CLASS_def SPELL_def fun_eq_iff

lemma reg_party_registered:
  "Registry_register Registry_init (Subclass wizard) = Inr r1 \<and>
   Registry_register r1 (Subclass fighter) = Inr r2 \<and>
   Registry_register r2 (Subclass wizard_spell) = Inr r3 \<and>
   Registry_register r3 (Subclass level) = Inr r4 \<longrightarrow> r4 = reg_party"
  by (auto simp: example_defs Registry_init_def Let_def Formula_count_def split: if_splits)

lemma party_init: "Character_init party reg_party = Inr c_party"
  by (simp add: Character_init_def Registry_get_def Registry_getitem_def example_defs
      Formula_count_def fun_eq_iff)

lemma reg_party_wf: "Registry_wf reg_party"
  by (auto simp: Registry_wf_def example_defs Formula_count_def split: if_splits)

lemma party_level: "get_variable (Suc n) c_party ''level'' = Some (Inr (IntV 3), c_party)"
  by (simp add: get_variable.simps Variable_call.simps variables_def variable_at_def set_lock_def
      get_elements_by_type_def Registry_get_def example_defs Formula_count_def fun_eq_iff)

lemma circular_dependency_examples:
  "Character_init [] reg_cyc = Inr (c_cyc False False) \<and>
   get_variable (Suc (Suc n)) (c_cyc False False) ''a'' =
     Some (Inl (CircularDependencyError 0), c_cyc True True) \<and>
   get_variable (Suc (Suc n)) (c_cyc False False) ''b'' =
     Some (Inl (CircularDependencyError 1), c_cyc True True) \<and>
   Character_init [] reg_dep_wizard =
     Inr (c_dep reg_dep_wizard False False False) \<and>
   get_variable (Suc (Suc n)) (c_dep reg_dep_wizard False False False) ''a'' =
     Some (Inr (IntV 0), c_dep reg_dep_wizard False False False) \<and>
   get_variable (Suc (Suc n)) (c_dep reg_dep_wizard False False False) ''b'' =
     Some (Inr (IntV 0), c_dep reg_dep_wizard False False False)"
  by (simp add: Character_init_def eval_defs dep_a_def dep_b_def dep_c_def reg_dep_def c_dep_def
      cyc_a_def cyc_b_def reg_cyc_def c_cyc_def wizard_def reg_dep_wizard_def)

section \<open>Claims\<close>

text \<open>
  C1. The claim: every call of \<open>Variable.__call__\<close> clears the flag on every exit
  path, also when the formula raises, so that a later evaluation of the variable is not
  affected. The code clears the flag only after the formula has returned
  (\<open>returned_value_clears_lock\<close>); when the formula raises the flag stays set
  (\<open>raised_exception_keeps_lock\<close>). At the variable \<open>a\<close> whose formula reads the
  missing variable \<open>missing\<close>: the first \<open>get_variable\<close> raises \<open>KeyError\<close> and
  leaves the flag of \<open>a\<close> set, and the second one, on the character as the first left
  it, raises \<open>CircularDependencyError\<close> for \<open>a\<close>, with any bound of at least one
  nested call.
\<close>

theorem failed_evaluation_leaves_lock_set:
  "Character_init [] reg_broken = Inr (c_broken False) \<and>
   get_variable (Suc n) (c_broken False) ''a'' = Some (Inl KeyError, c_broken True) \<and>
   variable_at (c_broken True) 0 = VariableObj broken True \<and>
   get_variable (Suc n) (c_broken True) ''a'' = Some (Inl (CircularDependencyError 0), c_broken True)"
  by (simp add: Character_init_def eval_defs broken_def reg_broken_def c_broken_def)

text \<open>
  C2. The claim: \<open>CircularDependencyError\<close> is raised exactly when the evaluation
  enters an instance again that is in progress on the active call chain. At the variables
  \<open>a\<close> and \<open>b\<close> that both read \<open>c\<close>, where \<open>c\<close> counts a class that is not
  registered: \<open>get_variable\<close> of \<open>a\<close> raises \<open>KeyError\<close> and leaves the flags of
  \<open>a\<close> and \<open>c\<close> set; \<open>get_variable\<close> of \<open>b\<close> then raises
  \<open>CircularDependencyError\<close> for \<open>c\<close> (position 2), although no evaluation is in
  progress and no variable reads itself. It does so also after the class has been
  registered, when \<open>b\<close> evaluates to 0 on a character whose flags are clear. On a
  character whose flags are clear the cases of the claim hold: see
  \<open>Variable_call_locked\<close> and \<open>circular_dependency_examples\<close>.
\<close>

theorem stale_lock_raises_circular_dependency:
  "Character_init [] reg_dep = Inr (c_dep reg_dep False False False) \<and>
   get_variable (Suc (Suc n)) (c_dep reg_dep False False False) ''a'' =
     Some (Inl KeyError, c_dep reg_dep True False True) \<and>
   get_variable (Suc (Suc n)) (c_dep reg_dep True False True) ''b'' =
     Some (Inl (CircularDependencyError 2), c_dep reg_dep True True True) \<and>
   Registry_register reg_dep (Subclass wizard) = Inr reg_dep_wizard \<and>
   (c_dep reg_dep True False True)\<lparr>registry := reg_dep_wizard\<rparr> = c_dep reg_dep_wizard True False True \<and>
   get_variable (Suc (Suc n)) (c_dep reg_dep_wizard True False True) ''b'' =
     Some (Inl (CircularDependencyError 2), c_dep reg_dep_wizard True True True) \<and>
   get_variable (Suc (Suc n)) (c_dep reg_dep_wizard False False False) ''b'' =
     Some (Inr (IntV 0), c_dep reg_dep_wizard False False False)"
  by (simp add: Character_init_def eval_defs dep_a_def dep_b_def dep_c_def reg_dep_def c_dep_def
      reg_dep_wizard_def wizard_def)

text \<open>
  C3. After a construction that succeeds, the VARIABLE group holds, position by position,
  one instance of each class in the registry's VARIABLE dictionary, each an instance of a
  \<open>Variable\<close> subclass with a clear flag, whatever the construction list names. With
  the registry's keys distinct, there is exactly one instance with each registered id and
  none with any other id. An evaluation, whatever its outcome, keeps the instances: only
  flags change.
\<close>

theorem variable_group_one_per_registered:
  assumes "Character_init refs reg = Inr c"
  shows "map inst_cls (get_elements_by_type c VARIABLE) = map snd (Registry_getitem reg VARIABLE) \<and>
    (\<forall>x\<in>set (get_elements_by_type c VARIABLE). x = VariableObj (inst_cls x) False \<and> is_Variable (inst_cls x)) \<and>
    (Registry_wf reg \<longrightarrow>
       (\<forall>i. length (filter (\<lambda>x. cls_id (inst_cls x) = i) (get_elements_by_type c VARIABLE)) =
            (if present reg VARIABLE i then 1 else 0))) \<and>
    (\<forall>n f r c'. Formula_call n f c = Some (r, c') \<longrightarrow> same_instances c c') \<and>
    (\<forall>n name r c'. get_variable n c name = Some (r, c') \<longrightarrow> same_instances c c')"
proof (intro conjI)
  note ini = Character_init_Inr[OF assms]
  let ?al = "Registry_getitem reg VARIABLE"
  show "map inst_cls (get_elements_by_type c VARIABLE) = map snd ?al"
    using ini(2) by (simp add: comp_def inst_cls_instantiate)
  show "\<forall>x\<in>set (get_elements_by_type c VARIABLE). x = VariableObj (inst_cls x) False \<and> is_Variable (inst_cls x)"
    using ini(2,3) by (auto simp: inst_cls_instantiate instantiate_Variable)
  show "Registry_wf reg \<longrightarrow>
       (\<forall>i. length (filter (\<lambda>x. cls_id (inst_cls x) = i) (get_elements_by_type c VARIABLE)) =
            (if present reg VARIABLE i then 1 else 0))"
  proof (intro impI allI)
    fix i assume wf: "Registry_wf reg"
    have al: "distinct (map fst ?al) \<and> (\<forall>(i, d)\<in>set ?al. cls_id d = i)"
    proof (cases "reg VARIABLE")
      case None
      then show ?thesis by (simp add: Registry_getitem_def)
    next
      case (Some r)
      with wf have "distinct (map fst r) \<and> (\<forall>(i, d)\<in>set r. cls_id d = i \<and> cls_type d = VARIABLE)"
        unfolding Registry_wf_def by blast
      with Some show ?thesis by (auto simp: Registry_getitem_def)
    qed
    have p: "present reg VARIABLE i \<longleftrightarrow> i \<in> set (map fst ?al)"
      by (simp add: present_def Registry_getitem_def split: option.splits)
    have "length (filter (\<lambda>x. cls_id (inst_cls x) = i) (get_elements_by_type c VARIABLE)) =
        length (filter (\<lambda>d. cls_id d = i) (map snd ?al))"
      using filter_map_instantiate[of "\<lambda>d. cls_id d = i" "map snd ?al"]
      by (simp only: ini(2) length_map)
    also have "\<dots> = (if i \<in> set (map fst ?al) then 1 else 0)"
      using al by (intro count_distinct_keys) auto
    finally show "length (filter (\<lambda>x. cls_id (inst_cls x) = i) (get_elements_by_type c VARIABLE)) =
            (if present reg VARIABLE i then 1 else 0)"
      using p by simp
  qed
  show "\<forall>n f r c'. Formula_call n f c = Some (r, c') \<longrightarrow> same_instances c c'"
    using eval_same_instances(1) by blast
  show "\<forall>n name r c'. get_variable n c name = Some (r, c') \<longrightarrow> same_instances c c'"
    using eval_same_instances(2) by blast
qed

theorem variable_group_one_per_registered_witness:
  "Character_init party reg_party = Inr c_party \<and>
   Registry_wf reg_party \<and>
   ClsRef (Subclass level) \<in> set party \<and>
   map inst_cls (get_elements_by_type c_party VARIABLE) = [level] \<and>
   get_elements_by_type c_party VARIABLE = [VariableObj level False] \<and>
   present reg_party VARIABLE ''level'' \<and>
   length (filter (\<lambda>x. cls_id (inst_cls x) = ''level'') (get_elements_by_type c_party VARIABLE)) = 1 \<and>
   get_variable 1 c_party ''level'' = Some (Inr (IntV 3), c_party) \<and>
   same_instances c_party c_party"
proof -
  note t = variable_group_one_per_registered[OF party_init]
  have a: "present reg_party VARIABLE ''level''" by (simp add: present_def example_defs)
  have b: "ClsRef (Subclass level) \<in> set party" by (simp add: party_def)
  have c: "get_variable 1 c_party ''level'' = Some (Inr (IntV 3), c_party)"
    using party_level[of 0] by simp
  have d: "get_elements_by_type c_party VARIABLE = [VariableObj level False]"
    by (simp add: get_elements_by_type_def c_party_def)
  have e: "map snd (Registry_getitem reg_party VARIABLE) = [level]"
    by (simp add: Registry_getitem_def reg_party_def)
  from t a b c d e reg_party_wf party_init show ?thesis by auto
qed

text \<open>
  C4, as stated, fails: for an id of the type that is not registered, a reference by the
  tuple \<open>(type, id)\<close> is looked up in the registry and \<open>count_elements\<close> raises
  \<open>KeyError\<close>; it does not return 0. The character has three instances of the class
  \<open>wizard\<close> and one of \<open>fighter\<close>.
\<close>

theorem count_elements_unregistered_tuple_counterexample:
  "Character_init party reg_party = Inr c_party \<and>
   length (filter (\<lambda>x. inst_cls x = wizard) (get_elements_by_type c_party CLASS)) = 3 \<and>
   length (filter (\<lambda>x. inst_cls x = fighter) (get_elements_by_type c_party CLASS)) = 1 \<and>
   \<not> present reg_party CLASS ''rogue'' \<and>
   count_elements c_party (TupleRef CLASS ''rogue'') = Inl KeyError \<and>
   count_elements c_party (TupleRef CLASS ''rogue'') \<noteq> Inr 0"
proof -
  have "length (filter (\<lambda>x. inst_cls x = wizard) (get_elements_by_type c_party CLASS)) = 3 \<and>
   length (filter (\<lambda>x. inst_cls x = fighter) (get_elements_by_type c_party CLASS)) = 1 \<and>
   \<not> present reg_party CLASS ''rogue'' \<and>
   count_elements c_party (TupleRef CLASS ''rogue'') = Inl KeyError"
    by (simp add: present_def get_elements_by_type_def Registry_get_def example_defs)
  with party_init show ?thesis by simp
qed

text \<open>
  C4, amended. For a reference by class, \<open>count_elements\<close> returns the number of
  instances in the group of the class's type whose id is the id of the class: 3 when there
  are three, 0 when there is none, whether the class is registered or not. A tuple that
  the registry resolves counts as the class it resolves to; a tuple that is not registered
  raises \<open>KeyError\<close>. In a constructed character the group of a type holds instances
  of that type only, so an instance of another type with the same id is never counted.
\<close>

theorem count_elements_type_scoped:
  "count_elements c (ClsRef (Subclass d)) =
     Inr (int (length (filter (\<lambda>x. cls_id (inst_cls x) = cls_id d)
                        (get_elements_by_type c (cls_type d))))) \<and>
   (\<forall>t i d'. Registry_get (registry c) t i = Inr d' \<longrightarrow>
      count_elements c (TupleRef t i) = count_elements c (ClsRef (Subclass d'))) \<and>
   (\<forall>t i. \<not> present (registry c) t i \<longrightarrow> count_elements c (TupleRef t i) = Inl KeyError) \<and>
   (length (filter (\<lambda>x. cls_id (inst_cls x) = cls_id d) (get_elements_by_type c (cls_type d))) = 3 \<longrightarrow>
      count_elements c (ClsRef (Subclass d)) = Inr 3) \<and>
   ((\<forall>x\<in>set (get_elements_by_type c (cls_type d)). cls_id (inst_cls x) \<noteq> cls_id d) \<longrightarrow>
      count_elements c (ClsRef (Subclass d)) = Inr 0) \<and>
   (\<forall>refs reg. Character_init refs reg = Inr c \<longrightarrow>
      (\<forall>t. \<forall>x\<in>set (get_elements_by_type c t). cls_type (inst_cls x) = t))"
proof (intro conjI allI impI ballI)
  show "count_elements c (ClsRef (Subclass d)) =
     Inr (int (length (filter (\<lambda>x. cls_id (inst_cls x) = cls_id d)
                        (get_elements_by_type c (cls_type d)))))"
    by (rule count_elements_ClsRef)
next
  fix t i d' assume "Registry_get (registry c) t i = Inr d'"
  then show "count_elements c (TupleRef t i) = count_elements c (ClsRef (Subclass d'))"
    by (simp only: count_elements_TupleRef sum.case)
next
  fix t i assume "\<not> present (registry c) t i"
  then have "Registry_get (registry c) t i = Inl KeyError" by (simp add: get_KeyError_iff)
  then show "count_elements c (TupleRef t i) = Inl KeyError"
    by (simp only: count_elements_TupleRef sum.case)
next
  assume "length (filter (\<lambda>x. cls_id (inst_cls x) = cls_id d) (get_elements_by_type c (cls_type d))) = 3"
  then show "count_elements c (ClsRef (Subclass d)) = Inr 3"
    by (simp only: count_elements_ClsRef) simp
next
  assume "\<forall>x\<in>set (get_elements_by_type c (cls_type d)). cls_id (inst_cls x) \<noteq> cls_id d"
  then have "filter (\<lambda>x. cls_id (inst_cls x) = cls_id d) (get_elements_by_type c (cls_type d)) = []"
    by (simp add: filter_empty_conv)
  then show "count_elements c (ClsRef (Subclass d)) = Inr 0"
    by (simp only: count_elements_ClsRef) simp
next
  fix refs reg t x
  assume "Character_init refs reg = Inr c" and "x \<in> set (get_elements_by_type c t)"
  then show "cls_type (inst_cls x) = t" by (rule Character_init_typed)
qed

theorem count_elements_type_scoped_witness:
  "Character_init party reg_party = Inr c_party \<and>
   Registry_get (registry c_party) CLASS ''wizard'' = Inr wizard \<and>
   count_elements c_party (TupleRef CLASS ''wizard'') = Inr 3 \<and>
   count_elements c_party (ClsRef (Subclass wizard)) = Inr 3 \<and>
   count_elements c_party (ClsRef (Subclass fighter)) = Inr 1 \<and>
   count_elements c_party (ClsRef (Subclass wizard_spell)) = Inr 1 \<and>
   filter (\<lambda>x. cls_id (inst_cls x) = cls_id rogue) (get_elements_by_type c_party (cls_type rogue)) = [] \<and>
   count_elements c_party (ClsRef (Subclass rogue)) = Inr 0 \<and>
   \<not> present (registry c_party) CLASS ''rogue'' \<and>
   count_elements c_party (TupleRef CLASS ''rogue'') = Inl KeyError \<and>
   list_all (\<lambda>x. cls_type (inst_cls x) = CLASS) (get_elements_by_type c_party CLASS)"
proof -
  note tw = count_elements_type_scoped[of c_party wizard]
  note tr = count_elements_type_scoped[of c_party rogue]
  have g: "Registry_get (registry c_party) CLASS ''wizard'' = Inr wizard"
    by (simp add: Registry_get_def example_defs)
  have n: "\<not> present (registry c_party) CLASS ''rogue''"
    by (simp add: present_def example_defs)
  have three: "length (filter (\<lambda>x. cls_id (inst_cls x) = cls_id wizard)
      (get_elements_by_type c_party (cls_type wizard))) = 3"
    by (simp add: get_elements_by_type_def example_defs)
  have none: "\<forall>x\<in>set (get_elements_by_type c_party (cls_type rogue)). cls_id (inst_cls x) \<noteq> cls_id rogue"
    by (simp add: get_elements_by_type_def example_defs)
  have others: "count_elements c_party (ClsRef (Subclass fighter)) = Inr 1"
    "count_elements c_party (ClsRef (Subclass wizard_spell)) = Inr 1"
    by (simp_all add: get_elements_by_type_def example_defs)
  have w3: "count_elements c_party (ClsRef (Subclass wizard)) = Inr 3"
    using tw three by blast
  have t3: "count_elements c_party (TupleRef CLASS ''wizard'') = Inr 3"
    using tw g w3 by metis
  have r0: "count_elements c_party (ClsRef (Subclass rogue)) = Inr 0"
    using tr none by blast
  have k: "count_elements c_party (TupleRef CLASS ''rogue'') = Inl KeyError"
    using tw n by blast
  have ty: "\<forall>x\<in>set (get_elements_by_type c_party CLASS). cls_type (inst_cls x) = CLASS"
    using tw party_init by blast
  from none have none': "filter (\<lambda>x. cls_id (inst_cls x) = cls_id rogue)
      (get_elements_by_type c_party (cls_type rogue)) = []"
    by (simp add: filter_empty_conv)
  from ty have ty': "list_all (\<lambda>x. cls_type (inst_cls x) = CLASS) (get_elements_by_type c_party CLASS)"
    by (simp add: list_all_iff)
  from party_init g n none' others w3 t3 r0 k ty' show ?thesis by blast
qed

text \<open>
  C5. A formula built by \<open>_operator\<close> evaluates \<open>self\<close>, then the other operand
  in the state \<open>self\<close> left, and applies the operator to the two values in this order;
  one built by \<open>_roperator\<close> evaluates the other operand first and applies the operator
  with it on the left. An operand that raises ends the evaluation with its exception. A
  bare value is its own constant formula. The ten methods are \<open>_operator\<close> and
  \<open>_roperator\<close> with \<open>add\<close>, \<open>sub\<close>, \<open>mul\<close>, \<open>truediv\<close> and
  \<open>floordiv\<close>. \<open>const(2) + const(3)\<close> evaluates to 5 on every character, and
  \<open>var("level") * const(4)\<close> to four times the value of the variable \<open>level\<close>.
\<close>

theorem operators_apply_to_operands_in_order:
  "(\<forall>x c1 y c2. Formula_call n self c = Some (Inr x, c1) \<and>
       Formula_call n (as_func v) c1 = Some (Inr y, c2) \<longrightarrow>
       Formula_call n (Formula_operator self operator v) c = Some (operator x y, c2)) \<and>
   (\<forall>x c1 y c2. Formula_call n (as_func v) c = Some (Inr x, c1) \<and>
       Formula_call n self c1 = Some (Inr y, c2) \<longrightarrow>
       Formula_call n (Formula_roperator self operator v) c = Some (operator x y, c2)) \<and>
   (\<forall>e c1. Formula_call n self c = Some (Inl e, c1) \<longrightarrow>
       Formula_call n (Formula_operator self operator v) c = Some (Inl e, c1)) \<and>
   (\<forall>e c1. Formula_call n (as_func v) c = Some (Inl e, c1) \<longrightarrow>
       Formula_call n (Formula_roperator self operator v) c = Some (Inl e, c1)) \<and>
   (\<forall>x c1 e c2. Formula_call n self c = Some (Inr x, c1) \<and>
       Formula_call n (as_func v) c1 = Some (Inl e, c2) \<longrightarrow>
       Formula_call n (Formula_operator self operator v) c = Some (Inl e, c2)) \<and>
   (\<forall>x c1 e c2. Formula_call n (as_func v) c = Some (Inr x, c1) \<and>
       Formula_call n self c1 = Some (Inl e, c2) \<longrightarrow>
       Formula_call n (Formula_roperator self operator v) c = Some (Inl e, c2)) \<and>
   Formula_call n (as_func (Bare k)) c = Some (Inr k, c) \<and>
   Formula_call n (as_func (Callable g)) c = Formula_call n g c \<and>
   Formula_add self v = Formula_operator self add v \<and>
   Formula_sub self v = Formula_operator self sub v \<and>
   Formula_mul self v = Formula_operator self mul v \<and>
   Formula_truediv truediv self v = Formula_operator self truediv v \<and>
   Formula_floordiv self v = Formula_operator self floordiv v \<and>
   Formula_radd self v = Formula_roperator self add v \<and>
   Formula_rsub self v = Formula_roperator self sub v \<and>
   Formula_rmul self v = Formula_roperator self mul v \<and>
   Formula_rtruediv truediv self v = Formula_roperator self truediv v \<and>
   Formula_rfloordiv self v = Formula_roperator self floordiv v \<and>
   add (IntV a) (IntV b) = Inr (IntV (a + b)) \<and>
   sub (IntV a) (IntV b) = Inr (IntV (a - b)) \<and>
   mul (IntV a) (IntV b) = Inr (IntV (a * b)) \<and>
   (b \<noteq> 0 \<longrightarrow> floordiv (IntV a) (IntV b) = Inr (IntV (a div b))) \<and>
   floordiv (IntV a) (IntV 0) = Inl ZeroDivisionError \<and>
   Formula_call n (Formula_add (Formula_const (IntV 2)) (Callable (Formula_const (IntV 3)))) c =
     Some (Inr (IntV 5), c) \<and>
   (\<forall>x c'. get_variable n c ''level'' = Some (Inr x, c') \<longrightarrow>
      Formula_call n (Formula_mul (Formula_var ''level'') (Callable (Formula_const (IntV 4)))) c =
        Some (Inr (IntV (4 * as_int x)), c'))"
proof -
  note sem = Formula_operator_values[of n self c _ _ v _ _ operator]
    Formula_roperator_values[of n v c _ _ self _ _ operator]
    Formula_operator_left_raises[of n self c _ _ operator v]
    Formula_roperator_left_raises[of n v c _ _ self operator]
    Formula_operator_right_raises[of n self c _ _ v _ _ operator]
    Formula_roperator_right_raises[of n v c _ _ self _ _ operator]
  have methods: "Formula_add self v = Formula_operator self add v"
    "Formula_sub self v = Formula_operator self sub v"
    "Formula_mul self v = Formula_operator self mul v"
    "Formula_truediv truediv self v = Formula_operator self truediv v"
    "Formula_floordiv self v = Formula_operator self floordiv v"
    "Formula_radd self v = Formula_roperator self add v"
    "Formula_rsub self v = Formula_roperator self sub v"
    "Formula_rmul self v = Formula_roperator self mul v"
    "Formula_rtruediv truediv self v = Formula_roperator self truediv v"
    "Formula_rfloordiv self v = Formula_roperator self floordiv v"
    by (simp_all add: Formula_add_def Formula_sub_def Formula_mul_def Formula_truediv_def
        Formula_floordiv_def Formula_radd_def Formula_rsub_def Formula_rmul_def
        Formula_rtruediv_def Formula_rfloordiv_def)
  have ops: "add (IntV a) (IntV b) = Inr (IntV (a + b))"
    "sub (IntV a) (IntV b) = Inr (IntV (a - b))"
    "mul (IntV a) (IntV b) = Inr (IntV (a * b))"
    "b \<noteq> 0 \<longrightarrow> floordiv (IntV a) (IntV b) = Inr (IntV (a div b))"
    "floordiv (IntV a) (IntV 0) = Inl ZeroDivisionError"
    by (simp_all add: add_def sub_def mul_def floordiv_def)
  show ?thesis
    using sem methods ops as_func_call[of n _ c] two_plus_three[of n c] level_times_four[of n c]
    by (intro conjI allI impI) (blast | assumption)+
qed

theorem operators_apply_to_operands_in_order_witness:
  "get_variable 1 c_party ''level'' = Some (Inr (IntV 3), c_party) \<and>
   Formula_call 1 (Formula_mul (Formula_var ''level'') (Callable (Formula_const (IntV 4)))) c_party =
     Some (Inr (IntV 12), c_party) \<and>
   Formula_call 1 (Formula_var ''level'') c_party = Some (Inr (IntV 3), c_party) \<and>
   Formula_call 1 (as_func (Bare (IntV 2))) c_party = Some (Inr (IntV 2), c_party) \<and>
   Formula_call 1 (Formula_operator (Formula_var ''level'') floordiv (Bare (IntV 2))) c_party =
     Some (Inr (IntV 1), c_party) \<and>
   Formula_call 1 (Formula_roperator (Formula_var ''level'') sub (Bare (IntV 2))) c_party =
     Some (Inr (IntV (- 1)), c_party) \<and>
   Formula_call 1 (Formula_var ''missing'') c_party = Some (Inl KeyError, c_party) \<and>
   Formula_call 1 (Formula_operator (Formula_var ''missing'') add (Bare (IntV 2))) c_party =
     Some (Inl KeyError, c_party) \<and>
   Formula_call 1 (Formula_roperator (Formula_var ''level'') add (Callable (Formula_var ''missing''))) c_party =
     Some (Inl KeyError, c_party) \<and>
   Formula_call 1 (Formula_operator (Formula_var ''level'') add (Callable (Formula_var ''missing''))) c_party =
     Some (Inl KeyError, c_party) \<and>
   Formula_call 1 (Formula_roperator (Formula_var ''missing'') add (Bare (IntV 2))) c_party =
     Some (Inl KeyError, c_party) \<and>
   (2::int) \<noteq> 0 \<and> floordiv (IntV 7) (IntV 2) = Inr (IntV 3)"
proof -
  have lv: "get_variable 1 c_party ''level'' = Some (Inr (IntV 3), c_party)"
    using party_level[of 0] by simp
  have l: "Formula_call 1 (Formula_var ''level'') c_party = Some (Inr (IntV 3), c_party)"
    using lv by (simp add: Formula_var_def)
  have m: "Formula_call 1 (Formula_var ''missing'') c_party = Some (Inl KeyError, c_party)"
    by (simp add: eval_defs example_defs)
  have b: "Formula_call 1 (as_func (Bare (IntV 2))) c_party = Some (Inr (IntV 2), c_party)" by simp
  have c: "Formula_call 1 (as_func (Callable (Formula_var ''missing''))) c_party = Some (Inl KeyError, c_party)"
    using m by simp
  have d: "(2::int) \<noteq> 0" by simp
  note t1 = operators_apply_to_operands_in_order[of 1 "Formula_var ''level''" c_party "Bare (IntV 2)" floordiv _ _ _ 7 2]
  note t2 = operators_apply_to_operands_in_order[of 1 "Formula_var ''level''" c_party "Bare (IntV 2)" sub]
  note t3 = operators_apply_to_operands_in_order[of 1 "Formula_var ''missing''" c_party "Bare (IntV 2)" add]
  note t4 = operators_apply_to_operands_in_order[of 1 "Formula_var ''level''" c_party "Callable (Formula_var ''missing'')" add]
  have "Formula_call 1 (Formula_mul (Formula_var ''level'') (Callable (Formula_const (IntV 4)))) c_party =
     Some (Inr (IntV 12), c_party)"
    using t1 lv by simp
  moreover have "Formula_call 1 (Formula_operator (Formula_var ''level'') floordiv (Bare (IntV 2))) c_party =
     Some (Inr (IntV 1), c_party)"
    using t1 l b by (simp add: floordiv_def)
  moreover have "Formula_call 1 (Formula_roperator (Formula_var ''level'') sub (Bare (IntV 2))) c_party =
     Some (Inr (IntV (- 1)), c_party)"
    using t2 l b by (simp add: sub_def)
  moreover have "Formula_call 1 (Formula_operator (Formula_var ''missing'') add (Bare (IntV 2))) c_party =
     Some (Inl KeyError, c_party)"
    using t3 m by simp
  moreover have "Formula_call 1 (Formula_roperator (Formula_var ''level'') add (Callable (Formula_var ''missing''))) c_party =
     Some (Inl KeyError, c_party)"
    using t4 c by simp
  moreover have "Formula_call 1 (Formula_operator (Formula_var ''level'') add (Callable (Formula_var ''missing''))) c_party =
     Some (Inl KeyError, c_party)"
    using t4 l c by simp
  moreover have "Formula_call 1 (Formula_roperator (Formula_var ''missing'') add (Bare (IntV 2))) c_party =
     Some (Inl KeyError, c_party)"
    using t3 b m by simp
  moreover have "floordiv (IntV 7) (IntV 2) = Inr (IntV 3)"
    using t1 d by simp
  ultimately show ?thesis using lv l m b d by simp
qed

text \<open>
  C6. On every character and for every reference, \<open>has(ref)\<close> evaluates to the result
  of \<open>count(ref)\<close> compared with 0: to \<open>True\<close> exactly when \<open>count(ref)\<close>
  evaluates to a value greater than 0, to \<open>False\<close> exactly when it evaluates to a value
  that is not, and it raises what \<open>count(ref)\<close> raises.
\<close>

theorem has_is_count_positive:
  "Formula_call n (Formula_has element) c =
     map_option (\<lambda>(res, c'). (map_sum id (\<lambda>k. BoolV (0 < as_int k)) res, c'))
       (Formula_call n (Formula_count element) c) \<and>
   ((\<exists>c'. Formula_call n (Formula_has element) c = Some (Inr (BoolV True), c')) \<longleftrightarrow>
    (\<exists>k c'. Formula_call n (Formula_count element) c = Some (Inr (IntV k), c') \<and> 0 < k)) \<and>
   ((\<exists>c'. Formula_call n (Formula_has element) c = Some (Inr (BoolV False), c')) \<longleftrightarrow>
    (\<exists>k c'. Formula_call n (Formula_count element) c = Some (Inr (IntV k), c') \<and> \<not> 0 < k))"
proof (cases "count_elements c element")
  case (Inl e)
  then have "Formula_call n (Formula_has element) c = Some (Inl e, c)"
    and "Formula_call n (Formula_count element) c = Some (Inl e, c)"
    by (simp_all add: Formula_has_def Formula_count_def)
  then show ?thesis by simp
next
  case (Inr k)
  then have "Formula_call n (Formula_has element) c = Some (Inr (BoolV (0 < k)), c)"
    and "Formula_call n (Formula_count element) c = Some (Inr (IntV k), c)"
    by (simp_all add: Formula_has_def Formula_count_def)
  then show ?thesis by simp
qed

text \<open>
  C7. \<open>Registry.register\<close> refuses the base class \<open>Element\<close> with \<open>TypeError\<close>
  (the InvalidRegistrationError of the specification) and a class whose \<open>(type, id)\<close>
  is already a key of the registry with \<open>ValueError\<close> (its DuplicateIdError). Otherwise it
  succeeds, \<open>get\<close> then returns the class under \<open>(type, id)\<close>, the other entries are
  as before, and every class with the same \<open>(type, id)\<close> is refused from then on: of
  two classes with the same pair the second one registered fails, whichever it is.
\<close>

theorem register_checks:
  "Registry_register reg Element = Inl TypeError \<and>
   (present reg (cls_type d) (cls_id d) \<longrightarrow> Registry_register reg (Subclass d) = Inl ValueError) \<and>
   (\<not> present reg (cls_type d) (cls_id d) \<longrightarrow>
      (\<exists>reg'. Registry_register reg (Subclass d) = Inr reg' \<and>
         Registry_get reg' (cls_type d) (cls_id d) = Inr d \<and>
         (\<forall>t i. (t, i) \<noteq> (cls_type d, cls_id d) \<longrightarrow> Registry_get reg' t i = Registry_get reg t i) \<and>
         (\<forall>d'. cls_type d' = cls_type d \<and> cls_id d' = cls_id d \<longrightarrow>
            Registry_register reg' (Subclass d') = Inl ValueError)))"
proof (intro conjI impI)
  show "Registry_register reg Element = Inl TypeError" by simp
next
  assume "present reg (cls_type d) (cls_id d)"
  then show "Registry_register reg (Subclass d) = Inl ValueError" by (rule register_present)
next
  assume absent: "\<not> present reg (cls_type d) (cls_id d)"
  define reg' where "reg' = reg(cls_type d \<mapsto> Registry_getitem reg (cls_type d) @ [(cls_id d, d)])"
  have r: "Registry_register reg (Subclass d) = Inr reg'"
    unfolding reg'_def using absent by (rule register_absent)
  have "\<forall>d'. cls_type d' = cls_type d \<and> cls_id d' = cls_id d \<longrightarrow>
      Registry_register reg' (Subclass d') = Inl ValueError"
    using register_then_present[OF r] register_present[of reg'] by metis
  with r register_get_same[OF r] register_get_other[OF r]
  show "\<exists>reg'. Registry_register reg (Subclass d) = Inr reg' \<and>
         Registry_get reg' (cls_type d) (cls_id d) = Inr d \<and>
         (\<forall>t i. (t, i) \<noteq> (cls_type d, cls_id d) \<longrightarrow> Registry_get reg' t i = Registry_get reg t i) \<and>
         (\<forall>d'. cls_type d' = cls_type d \<and> cls_id d' = cls_id d \<longrightarrow>
            Registry_register reg' (Subclass d') = Inl ValueError)"
    by blast
qed

theorem register_checks_witness:
  "\<not> present Registry_init (cls_type wizard) (cls_id wizard) \<and>
   Registry_register Registry_init (Subclass wizard) = Inr reg_wizard \<and>
   present reg_wizard (cls_type wizard2) (cls_id wizard2) \<and>
   Registry_register reg_wizard (Subclass wizard2) = Inl ValueError"
proof -
  have a: "\<not> present Registry_init (cls_type wizard) (cls_id wizard)"
    by (simp add: present_def Registry_init_def)
  have b: "present reg_wizard (cls_type wizard2) (cls_id wizard2)"
    by (simp add: present_def reg_wizard_def wizard_def wizard2_def)
  have c: "Registry_register Registry_init (Subclass wizard) = Inr reg_wizard"
    by (simp add: Registry_init_def reg_wizard_def wizard_def)
  from a b c register_checks[of Registry_init wizard] register_checks[of reg_wizard wizard2]
  show ?thesis by simp
qed

text \<open>
  C8. \<open>Registry.get(type, id)\<close> raises \<open>KeyError\<close> (the NotFoundError of the
  specification) exactly when \<open>(type, id)\<close> is not a key of the registry; otherwise it
  returns a class stored under the pair, which after a successful \<open>register\<close> is the
  class registered. \<open>Registry.__getitem__\<close> has no failing path: it returns the type's
  dictionary, and the empty one when the type has none.
\<close>

theorem get_and_getitem:
  "(Registry_get reg t i = Inl KeyError \<longleftrightarrow> \<not> present reg t i) \<and>
   (present reg t i \<longrightarrow> (\<exists>d. Registry_get reg t i = Inr d \<and> (i, d) \<in> set (Registry_getitem reg t))) \<and>
   (\<forall>d reg'. Registry_register reg (Subclass d) = Inr reg' \<longrightarrow>
      Registry_get reg' (cls_type d) (cls_id d) = Inr d) \<and>
   (reg t = None \<longrightarrow> Registry_getitem reg t = []) \<and>
   (\<forall>r. reg t = Some r \<longrightarrow> Registry_getitem reg t = r)"
proof (intro conjI impI allI)
  show "Registry_get reg t i = Inl KeyError \<longleftrightarrow> \<not> present reg t i" by (rule get_KeyError_iff)
next
  assume "present reg t i"
  with get_KeyError_iff[of reg t i] get_Inr_or_KeyError[of reg t i]
  obtain d where "Registry_get reg t i = Inr d" by auto
  with get_Inr_mem[OF this]
  show "\<exists>d. Registry_get reg t i = Inr d \<and> (i, d) \<in> set (Registry_getitem reg t)" by blast
next
  fix d reg' assume "Registry_register reg (Subclass d) = Inr reg'"
  then show "Registry_get reg' (cls_type d) (cls_id d) = Inr d" by (rule register_get_same)
next
  assume "reg t = None" then show "Registry_getitem reg t = []" by (simp add: Registry_getitem_def)
next
  fix r assume "reg t = Some r" then show "Registry_getitem reg t = r" by (simp add: Registry_getitem_def)
qed

theorem get_and_getitem_witness:
  "present reg_wizard CLASS ''wizard'' \<and> Registry_get reg_wizard CLASS ''wizard'' = Inr wizard \<and>
   \<not> present reg_wizard CLASS ''rogue'' \<and> Registry_get reg_wizard CLASS ''rogue'' = Inl KeyError \<and>
   \<not> present reg_wizard SPELL ''wizard'' \<and> Registry_get reg_wizard SPELL ''wizard'' = Inl KeyError \<and>
   reg_wizard SPELL = None \<and> Registry_getitem reg_wizard SPELL = [] \<and>
   Registry_getitem reg_wizard CLASS = [(''wizard'', wizard)]"
proof -
  have a: "present reg_wizard CLASS ''wizard''" "\<not> present reg_wizard CLASS ''rogue''"
    "\<not> present reg_wizard SPELL ''wizard''"
    by (simp_all add: present_def reg_wizard_def CLASS_def SPELL_def)
  have b: "reg_wizard SPELL = None" "reg_wizard CLASS = Some [(''wizard'', wizard)]"
    by (simp_all add: reg_wizard_def CLASS_def SPELL_def)
  from a b get_and_getitem[of reg_wizard CLASS "''wizard''"] get_and_getitem[of reg_wizard CLASS "''rogue''"]
    get_and_getitem[of reg_wizard SPELL "''wizard''"]
  show ?thesis by (auto simp: Registry_getitem_def)
qed

text \<open>
  C9. \<open>if_(expr, if_true, if_false)\<close> evaluates \<open>expr\<close> once and then, in the state
  \<open>expr\<close> left, the branch that the truth value of the result selects, and returns what
  that branch returns. The other branch is not evaluated: replacing it by any formula, one
  that raises or sets flags included, changes neither the result nor the final state.
  When \<open>expr\<close> raises, no branch is evaluated.
\<close>

theorem if_evaluates_selected_branch_only:
  "Formula_call n (Formula_if expr if_true if_false) c =
     (case Formula_call n expr c of
        None \<Rightarrow> None
      | Some (Inl e, c1) \<Rightarrow> Some (Inl e, c1)
      | Some (Inr b, c1) \<Rightarrow> Formula_call n (if truthy b then if_true else if_false) c1) \<and>
   (\<forall>b c1 other. Formula_call n expr c = Some (Inr b, c1) \<and> truthy b \<longrightarrow>
      Formula_call n (Formula_if expr if_true other) c = Formula_call n if_true c1) \<and>
   (\<forall>b c1 other. Formula_call n expr c = Some (Inr b, c1) \<and> \<not> truthy b \<longrightarrow>
      Formula_call n (Formula_if expr other if_false) c = Formula_call n if_false c1) \<and>
   (\<forall>e c1 other1 other2. Formula_call n expr c = Some (Inl e, c1) \<longrightarrow>
      Formula_call n (Formula_if expr other1 other2) c = Some (Inl e, c1))"
proof (intro conjI allI impI)
  show "Formula_call n (Formula_if expr if_true if_false) c =
     (case Formula_call n expr c of
        None \<Rightarrow> None
      | Some (Inl e, c1) \<Rightarrow> Some (Inl e, c1)
      | Some (Inr b, c1) \<Rightarrow> Formula_call n (if truthy b then if_true else if_false) c1)"
    by (auto simp: Formula_if_def split: option.splits sum.splits)
next
  fix b c1 other
  assume "Formula_call n expr c = Some (Inr b, c1) \<and> truthy b"
  then show "Formula_call n (Formula_if expr if_true other) c = Formula_call n if_true c1"
    by (simp add: Formula_if_def)
next
  fix b c1 other
  assume "Formula_call n expr c = Some (Inr b, c1) \<and> \<not> truthy b"
  then show "Formula_call n (Formula_if expr other if_false) c = Formula_call n if_false c1"
    by (simp add: Formula_if_def)
next
  fix e c1 other1 other2
  assume "Formula_call n expr c = Some (Inl e, c1)"
  then show "Formula_call n (Formula_if expr other1 other2) c = Some (Inl e, c1)"
    by (simp add: Formula_if_def)
qed

theorem if_evaluates_selected_branch_only_witness:
  "Formula_call 0 (Formula_has (TupleRef CLASS ''wizard'')) c_party = Some (Inr (BoolV True), c_party) \<and>
   truthy (BoolV True) \<and>
   Formula_call 0 (Formula_floordiv (Formula_const (IntV 1)) (Bare (IntV 0))) c_party =
     Some (Inl ZeroDivisionError, c_party) \<and>
   Formula_call 0 (Formula_if (Formula_has (TupleRef CLASS ''wizard'')) (Formula_const (IntV 1))
        (Formula_floordiv (Formula_const (IntV 1)) (Bare (IntV 0)))) c_party =
     Some (Inr (IntV 1), c_party) \<and>
   Formula_call 0 (Formula_has (ClsRef (Subclass rogue))) c_party = Some (Inr (BoolV False), c_party) \<and>
   \<not> truthy (BoolV False) \<and>
   Formula_call 0 (Formula_if (Formula_has (ClsRef (Subclass rogue)))
        (Formula_floordiv (Formula_const (IntV 1)) (Bare (IntV 0))) (Formula_const (IntV 2))) c_party =
     Some (Inr (IntV 2), c_party) \<and>
   Formula_call 0 (Formula_count (TupleRef CLASS ''rogue'')) c_party = Some (Inl KeyError, c_party) \<and>
   Formula_call 0 (Formula_if (Formula_count (TupleRef CLASS ''rogue'')) (Formula_const (IntV 1))
        (Formula_const (IntV 2))) c_party =
     Some (Inl KeyError, c_party)"
proof -
  have p: "Formula_call 0 (Formula_has (TupleRef CLASS ''wizard'')) c_party = Some (Inr (BoolV True), c_party)"
    by (simp add: eval_defs example_defs)
  have q: "Formula_call 0 (Formula_has (ClsRef (Subclass rogue))) c_party = Some (Inr (BoolV False), c_party)"
    by (simp add: eval_defs example_defs)
  have r: "Formula_call 0 (Formula_count (TupleRef CLASS ''rogue'')) c_party = Some (Inl KeyError, c_party)"
    by (simp add: eval_defs example_defs)
  have z: "Formula_call 0 (Formula_floordiv (Formula_const (IntV 1)) (Bare (IntV 0))) c_party =
     Some (Inl ZeroDivisionError, c_party)"
    by (simp add: Formula_floordiv_def Formula_operator_def Formula_const_def floordiv_def)
  have one: "Formula_call 0 (Formula_const (IntV 1)) c_party = Some (Inr (IntV 1), c_party)"
    and two: "Formula_call 0 (Formula_const (IntV 2)) c_party = Some (Inr (IntV 2), c_party)"
    by (simp_all add: Formula_const_def)
  note t1 = if_evaluates_selected_branch_only[of 0 "Formula_has (TupleRef CLASS ''wizard'')"
      "Formula_const (IntV 1)" "Formula_floordiv (Formula_const (IntV 1)) (Bare (IntV 0))" c_party]
  note t2 = if_evaluates_selected_branch_only[of 0 "Formula_has (ClsRef (Subclass rogue))"
      "Formula_floordiv (Formula_const (IntV 1)) (Bare (IntV 0))" "Formula_const (IntV 2)" c_party]
  note t3 = if_evaluates_selected_branch_only[of 0 "Formula_count (TupleRef CLASS ''rogue'')"
      "Formula_const (IntV 1)" "Formula_const (IntV 2)" c_party]
  have "Formula_call 0 (Formula_if (Formula_has (TupleRef CLASS ''wizard'')) (Formula_const (IntV 1))
        (Formula_floordiv (Formula_const (IntV 1)) (Bare (IntV 0)))) c_party = Some (Inr (IntV 1), c_party)"
    using t1 p one by simp
  moreover have "Formula_call 0 (Formula_if (Formula_has (ClsRef (Subclass rogue)))
        (Formula_floordiv (Formula_const (IntV 1)) (Bare (IntV 0))) (Formula_const (IntV 2))) c_party =
     Some (Inr (IntV 2), c_party)"
    using t2 q two by simp
  moreover have "Formula_call 0 (Formula_if (Formula_count (TupleRef CLASS ''rogue'')) (Formula_const (IntV 1))
        (Formula_const (IntV 2))) c_party = Some (Inl KeyError, c_party)"
    using t3 r by simp
  ultimately show ?thesis using p q r z by simp
qed




end
